theory Spec2Isabelle
  imports Complex_Main "HOL-Library.Sublist"
begin

section \<open>Retrying request executor (services/geminiService: withRetry)\<close>

text \<open>
  A thrown JavaScript value is modelled by the one property the code reads from it, its
  optional \<open>message\<close>. The wrapped operation \<open>fn\<close> takes no argument and may answer
  differently at every call, so it is modelled by the sequence of its answers: \<open>fn k\<close> is
  what the k-th call returns (\<open>Inl\<close> a thrown error, \<open>Inr\<close> a value). \<open>Math.random()\<close> is
  the sequence \<open>rnd\<close>, read once per retry. Delays are milliseconds, taken as real numbers;
  the run record collects what the caller can observe: the final outcome, the number of calls
  of \<open>fn\<close> and the delays waited, in order.
\<close>

datatype js_error = Error (message: "string option")

text \<open>\<open>toLowerCase\<close> on the ASCII letters; \<open>includes\<close> is a contiguous-substring test.\<close>

definition lower_char :: "char \<Rightarrow> char" where
  "lower_char c = (let n = (of_char c :: nat) in if 65 \<le> n \<and> n \<le> 90 then char_of (n + 32) else c)"

definition toLowerCase :: "string \<Rightarrow> string" where
  "toLowerCase s = map lower_char s"

definition str_includes :: "string \<Rightarrow> string \<Rightarrow> bool" where
  "str_includes s sub = sublist sub s"

definition isRateLimit :: "js_error \<Rightarrow> bool" where
  "isRateLimit error =
     (let errorMsg = (case message error of None \<Rightarrow> [] | Some m \<Rightarrow> toLowerCase m)
      in str_includes errorMsg ''429'' \<or> str_includes errorMsg ''quota'' \<or> str_includes errorMsg ''exhausted'')"

record 'a run =
  outcome :: "js_error + 'a"
  attempts :: nat
  waits :: "real list"

text \<open>
  \<open>withRetry(fn, retries = 4, delay = 2000)\<close>: every caller uses the defaults, so \<open>retries\<close> is a
  natural number. The recursion is the source's own.
\<close>

fun withRetry :: "(nat \<Rightarrow> js_error + 'a) \<Rightarrow> (nat \<Rightarrow> real) \<Rightarrow> nat \<Rightarrow> nat \<Rightarrow> real \<Rightarrow> 'a run" where
  "withRetry fn rnd i retries delay =
     (case fn i of
        Inr v \<Rightarrow> \<lparr>outcome = Inr v, attempts = 1, waits = []\<rparr>
      | Inl error \<Rightarrow>
          if isRateLimit error \<and> retries > 0 then
            (let r = withRetry fn rnd (i + 1) (retries - 1) (delay * 2)
             in r\<lparr>attempts := attempts r + 1, waits := (delay + rnd i * 1000) # waits r\<rparr>)
          else \<lparr>outcome = Inl error, attempts = 1, waits = []\<rparr>)"

declare withRetry.simps [simp del]

text \<open>The failure class that the executor retries: a thrown error with the rate-limit signature.\<close>

definition rate_limited :: "js_error + 'a \<Rightarrow> bool" where
  "rate_limited x = (case x of Inl error \<Rightarrow> isRateLimit error | Inr v \<Rightarrow> False)"

text \<open>
  The dashboard script has its own \<open>withRetry(fn, retries = 3, delay = 2000)\<close> with the same
  control flow and no jitter: it waits exactly \<open>delay\<close>.
\<close>

fun withRetry_plain :: "(nat \<Rightarrow> js_error + 'a) \<Rightarrow> nat \<Rightarrow> nat \<Rightarrow> real \<Rightarrow> 'a run" where
  "withRetry_plain fn i retries delay =
     (case fn i of
        Inr v \<Rightarrow> \<lparr>outcome = Inr v, attempts = 1, waits = []\<rparr>
      | Inl error \<Rightarrow>
          if isRateLimit error \<and> retries > 0 then
            (let r = withRetry_plain fn (i + 1) (retries - 1) (delay * 2)
             in r\<lparr>attempts := attempts r + 1, waits := delay # waits r\<rparr>)
          else \<lparr>outcome = Inl error, attempts = 1, waits = []\<rparr>)"

declare withRetry_plain.simps [simp del]

section \<open>Inference stages (services/geminiService)\<close>

text \<open>
  Every stage sends one request and passes the answer's text to \<open>JSON.parse\<close>. The request
  and the parser belong to the platform, so one attempt of a stage is given by what they do:
  the request is rejected with an error, or it resolves and \<open>JSON.parse(response.text.trim())\<close>
  either throws (\<open>Inl\<close>) or yields a JSON value (\<open>Inr\<close>). TypeScript's result types are
  erased when the code runs: a stage returns whatever value the parser produced.
\<close>

datatype json = JNull | JBool bool | JNum real | JStr string | JArr "json list"
  | JObj "(string \<times> json) list"

datatype reply = Rejects js_error | Responds "js_error + json"

definition fallback_score :: json where
  "fallback_score = JObj
     [(''total'', JNum 82), (''lighting'', JNum 85), (''safetyHistory'', JNum 90),
      (''crowdActivity'', JNum 75),
      (''description'', JStr ''Standard safe urban zone with consistent lighting and moderate traffic.'')]"

text \<open>The operation each stage hands to \<open>withRetry\<close>, applied to one attempt's reply.\<close>

definition analyzeRouteSafety_fn :: "reply \<Rightarrow> js_error + json" where
  "analyzeRouteSafety_fn rep =
     (case rep of
        Rejects error \<Rightarrow> Inl error
      | Responds parsed \<Rightarrow> (case parsed of Inr v \<Rightarrow> Inr v | Inl e \<Rightarrow> Inr fallback_score))"

definition generateSafeRoute_fn :: "reply \<Rightarrow> js_error + json" where
  "generateSafeRoute_fn rep = (case rep of Rejects error \<Rightarrow> Inl error | Responds parsed \<Rightarrow> parsed)"

definition getRiskTrend_fn :: "reply \<Rightarrow> js_error + json" where
  "getRiskTrend_fn rep = (case rep of Rejects error \<Rightarrow> Inl error | Responds parsed \<Rightarrow> parsed)"

definition getThreatZones_fn :: "reply \<Rightarrow> js_error + json" where
  "getThreatZones_fn rep = (case rep of Rejects error \<Rightarrow> Inl error | Responds parsed \<Rightarrow> parsed)"

definition analyzeRouteSafety :: "(nat \<Rightarrow> reply) \<Rightarrow> (nat \<Rightarrow> real) \<Rightarrow> json run" where
  "analyzeRouteSafety svc rnd = withRetry (\<lambda>k. analyzeRouteSafety_fn (svc k)) rnd 0 4 2000"

definition generateSafeRoute :: "(nat \<Rightarrow> reply) \<Rightarrow> (nat \<Rightarrow> real) \<Rightarrow> json run" where
  "generateSafeRoute svc rnd = withRetry (\<lambda>k. generateSafeRoute_fn (svc k)) rnd 0 4 2000"

definition getRiskTrend :: "(nat \<Rightarrow> reply) \<Rightarrow> (nat \<Rightarrow> real) \<Rightarrow> json run" where
  "getRiskTrend svc rnd = withRetry (\<lambda>k. getRiskTrend_fn (svc k)) rnd 0 4 2000"

definition getThreatZones :: "(nat \<Rightarrow> reply) \<Rightarrow> (nat \<Rightarrow> real) \<Rightarrow> json run" where
  "getThreatZones svc rnd = withRetry (\<lambda>k. getThreatZones_fn (svc k)) rnd 0 4 2000"

text \<open>
  The shape the score request asks for in its \<open>responseSchema\<close>: an object with the four
  numeric fields and the textual description. The schema has no bounds on the numbers.
\<close>

definition num_field :: "json \<Rightarrow> string \<Rightarrow> real option" where
  "num_field j name =
     (case j of
        JObj fs \<Rightarrow> (case map_of fs name of Some (JNum x) \<Rightarrow> Some x | _ \<Rightarrow> None)
      | _ \<Rightarrow> None)"

definition str_field :: "json \<Rightarrow> string \<Rightarrow> string option" where
  "str_field j name =
     (case j of
        JObj fs \<Rightarrow> (case map_of fs name of Some (JStr x) \<Rightarrow> Some x | _ \<Rightarrow> None)
      | _ \<Rightarrow> None)"

definition score_shape :: "json \<Rightarrow> bool" where
  "score_shape j =
     (num_field j ''total'' \<noteq> None \<and> num_field j ''lighting'' \<noteq> None \<and>
      num_field j ''safetyHistory'' \<noteq> None \<and> num_field j ''crowdActivity'' \<noteq> None \<and>
      str_field j ''description'' \<noteq> None)"

definition percent :: "real option \<Rightarrow> bool" where
  "percent x = (case x of Some r \<Rightarrow> 0 \<le> r \<and> r \<le> 100 | None \<Rightarrow> False)"

definition score_in_range :: "json \<Rightarrow> bool" where
  "score_in_range j =
     (percent (num_field j ''total'') \<and> percent (num_field j ''lighting'') \<and>
      percent (num_field j ''safetyHistory'') \<and> percent (num_field j ''crowdActivity''))"

section \<open>Staged orchestrator (App: init)\<close>

text \<open>
  The state that \<open>init\<close> writes, with the initial values of the component. The fields carry
  the prefix \<open>app_\<close> because the map component has properties of the same names. The list of
  events is not part of the program: it records, in order, which stage functions \<open>init\<close> called
  and which pauses it made.
\<close>

record app_state =
  app_safetyScore :: "json option"
  app_threatZones :: json
  app_riskTrend :: json
  app_safeRoute :: "json option"
  app_isLoading :: bool
  app_isRateLimited :: bool

datatype stage = AnalyzeRouteSafety | GetThreatZones | GenerateSafeRoute | GetRiskTrend

datatype event = Call stage | Sleep nat

record services =
  score_svc :: "nat \<Rightarrow> reply"
  zones_svc :: "nat \<Rightarrow> reply"
  route_svc :: "nat \<Rightarrow> reply"
  trend_svc :: "nat \<Rightarrow> reply"

definition app_state0 :: app_state where
  "app_state0 = \<lparr>app_safetyScore = None, app_threatZones = JArr [], app_riskTrend = JArr [],
     app_safeRoute = None, app_isLoading = False, app_isRateLimited = False\<rparr>"

text \<open>The \<open>catch\<close> and \<open>finally\<close> blocks of \<open>init\<close>.\<close>

definition message_includes_429 :: "js_error \<Rightarrow> bool" where
  "message_includes_429 err = (case message err of None \<Rightarrow> False | Some m \<Rightarrow> str_includes m ''429'')"

definition init_finally :: "app_state \<times> event list \<Rightarrow> app_state \<times> event list" where
  "init_finally x = (case x of (st, tr) \<Rightarrow> (st\<lparr>app_isLoading := False\<rparr>, tr))"

definition init_catch :: "js_error \<Rightarrow> app_state \<Rightarrow> event list \<Rightarrow> app_state \<times> event list" where
  "init_catch err st tr =
     (if message_includes_429 err then (st\<lparr>app_isRateLimited := True\<rparr>, tr) else (st, tr))"

definition init :: "services \<Rightarrow> (nat \<Rightarrow> real) \<Rightarrow> app_state \<Rightarrow> app_state \<times> event list" where
  "init sv rnd st0 =
     (let st = st0\<lparr>app_isLoading := True, app_isRateLimited := False\<rparr>;
          tr1 = [Call AnalyzeRouteSafety]
      in init_finally
        (case outcome (analyzeRouteSafety (score_svc sv) rnd) of
           Inl err \<Rightarrow> init_catch err st tr1
         | Inr score \<Rightarrow>
            (let st1 = st\<lparr>app_safetyScore := Some score\<rparr>;
                 tr2 = tr1 @ [Sleep 2000, Call GetThreatZones]
             in case outcome (getThreatZones (zones_svc sv) rnd) of
                  Inl err \<Rightarrow> init_catch err st1 tr2
                | Inr zones \<Rightarrow>
                   (let st2 = st1\<lparr>app_threatZones := zones\<rparr>;
                        tr3 = tr2 @ [Sleep 2000, Call GenerateSafeRoute]
                    in case outcome (generateSafeRoute (route_svc sv) rnd) of
                         Inl err \<Rightarrow> init_catch err st2 tr3
                       | Inr route \<Rightarrow>
                          (let st3 = st2\<lparr>app_safeRoute := Some route\<rparr>;
                               tr4 = tr3 @ [Sleep 2000, Call GetRiskTrend]
                           in case outcome (getRiskTrend (trend_svc sv) rnd) of
                                Inl err \<Rightarrow> init_catch err st3 tr4
                              | Inr trend \<Rightarrow> (st3\<lparr>app_riskTrend := trend\<rparr>, tr4))))))"

section \<open>Chat session adapter (App: handleSendMessage)\<close>

text \<open>
  A chat session is an object of the inference service; the model keeps its handle. The
  counter \<open>created\<close> and the list \<open>sent\<close> are not program variables: they record how often
  \<open>createSafetyChat\<close> ran and every \<open>sendMessage\<close> call with the session it went to. What
  \<open>sendMessage\<close> does for the turn (\<open>Inl\<close> a thrown error, \<open>Inr\<close> the answer's text) is an
  argument. One turn runs undisturbed from its start to its last append.

  The texts of the chat are JavaScript strings: sequences of UTF-16 code units, here natural
  numbers. \<open>units\<close> gives the code units of an ASCII literal of the source.
\<close>

type_synonym ustring = "nat list"

definition units :: "string \<Rightarrow> ustring" where
  "units s = map of_char s"

datatype role = User | Model

record chat =
  chatMessages :: "(role \<times> ustring) list"
  chatInput :: ustring
  chatInstance :: "nat option"
  created :: nat
  sent :: "(nat \<times> ustring) list"

definition chat0 :: chat where
  "chat0 = \<lparr>chatMessages = [], chatInput = [], chatInstance = None, created = 0, sent = []\<rparr>"

text \<open>
  \<open>String.prototype.trim\<close> removes white space and line terminators from both ends. These
  are the code units U+0009 to U+000D, U+0020, U+00A0, U+1680, U+2000 to U+200A, U+2028,
  U+2029, U+202F, U+205F, U+3000 and U+FEFF, written below in decimal.
\<close>

definition js_space :: "nat \<Rightarrow> bool" where
  "js_space u =
     ((9 \<le> u \<and> u \<le> 13) \<or> u = 32 \<or> u = 160 \<or> u = 5760 \<or> (8192 \<le> u \<and> u \<le> 8202) \<or>
      u = 8232 \<or> u = 8233 \<or> u = 8239 \<or> u = 8287 \<or> u = 12288 \<or> u = 65279)"

definition trim :: "ustring \<Rightarrow> ustring" where
  "trim s = rev (dropWhile js_space (rev (dropWhile js_space s)))"

definition createSafetyChat :: "chat \<Rightarrow> nat \<times> chat" where
  "createSafetyChat c = (created c, c\<lparr>created := Suc (created c)\<rparr>)"

definition fallback_message :: "js_error \<Rightarrow> ustring" where
  "fallback_message err =
     (if message_includes_429 err
      then units ''Service busy. I'm still watching your route locally.''
      else units ''Signal weak, but SOS links are active.'')"

definition handleSendMessage :: "js_error + ustring \<Rightarrow> chat \<Rightarrow> chat" where
  "handleSendMessage answer c =
     (if trim (chatInput c) = [] then c
      else
        (let (session, c1) =
               (case chatInstance c of
                  None \<Rightarrow> (case createSafetyChat c of (h, c') \<Rightarrow> (h, c'\<lparr>chatInstance := Some h\<rparr>))
                | Some h \<Rightarrow> (h, c));
             userMsg = chatInput c1;
             c2 = c1\<lparr>chatInput := [], chatMessages := chatMessages c1 @ [(User, userMsg)]\<rparr>;
             c3 = c2\<lparr>sent := sent c2 @ [(session, userMsg)]\<rparr>
         in case answer of
              Inr text \<Rightarrow> c3\<lparr>chatMessages := chatMessages c3 @ [(Model, text)]\<rparr>
            | Inl err \<Rightarrow> c3\<lparr>chatMessages := chatMessages c3 @ [(Model, fallback_message err)]\<rparr>))"

text \<open>A turn: the input field takes the text (\<open>setChatInput\<close>), then the message is sent.\<close>

definition sendTurn :: "chat \<Rightarrow> ustring \<times> (js_error + ustring) \<Rightarrow> chat" where
  "sendTurn c turn = handleSendMessage (snd turn) (c\<lparr>chatInput := fst turn\<rparr>)"

definition sendTurns :: "(ustring \<times> (js_error + ustring)) list \<Rightarrow> chat \<Rightarrow> chat" where
  "sendTurns turns c = foldl sendTurn c turns"

text \<open>
  What holds of every conversation that starts without a session: at most one session, the
  one with handle 0, has been created, and every message went to it.
\<close>

definition chat_inv :: "chat \<Rightarrow> bool" where
  "chat_inv c =
     ((\<forall>x \<in> set (sent c). fst x = 0) \<and>
      (case chatInstance c of
         None \<Rightarrow> created c = 0 \<and> sent c = []
       | Some h \<Rightarrow> h = 0 \<and> created c = 1 \<and> sent c \<noteq> []))"

section \<open>View reconciler (components/MapComponent and the dashboard script's updateMap)\<close>

text \<open>
  The mapping library keeps layer objects; the code holds references to them. The model has a
  store of layer objects by handle (\<open>objs\<close>), the handles currently added to the map in the
  order of their addition (\<open>on_map\<close>), the next unused handle, and the references of the
  component: \<open>leafletMap\<close> (whether the map exists), \<open>userMarkerRef\<close>, \<open>routeLayerRef\<close> and
  \<open>threatLayersRef\<close>. A layer carries what the properties below speak of: position or points, and the
  options that depend on the state (icon variant, colour, dash pattern, radius).
  Coordinates are only passed on, never computed with.
\<close>

type_synonym coord = "real \<times> real"

datatype intensity = High | Medium | Low

record ThreatZone =
  zone_id :: string
  lat :: real
  lng :: real
  radius :: real
  intensity :: intensity
  reason :: string

datatype icon = UserIcon bool | DivIcon bool

datatype layer = TileLayer
  | Marker coord icon
  | Polyline "coord list" string string
  | Circle coord real string

record view =
  objs :: "nat \<Rightarrow> layer option"
  on_map :: "nat list"
  fresh :: nat
  leafletMap :: bool
  userMarkerRef :: "nat option"
  routeLayerRef :: "nat option"
  threatLayersRef :: "nat list"

record props =
  center :: coord
  destination :: "coord option"
  routePoints :: "coord list"
  zoom :: nat
  threatZones :: "ThreatZone list"
  showThreats :: bool
  safetyScore :: real
  isDistress :: bool

definition view0 :: view where
  "view0 = \<lparr>objs = (\<lambda>h. None), on_map = [], fresh = 0, leafletMap = False,
     userMarkerRef = None, routeLayerRef = None, threatLayersRef = []\<rparr>"

text \<open>The calls into the mapping library: create a layer and add it, remove a layer, move a marker.\<close>

definition addTo :: "layer \<Rightarrow> view \<Rightarrow> nat \<times> view" where
  "addTo l v =
     (fresh v, v\<lparr>objs := (objs v)(fresh v \<mapsto> l), on_map := on_map v @ [fresh v],
                 fresh := Suc (fresh v)\<rparr>)"

definition removeLayer :: "nat \<Rightarrow> view \<Rightarrow> view" where
  "removeLayer h v = v\<lparr>on_map := removeAll h (on_map v)\<rparr>"

definition setLatLng :: "nat \<Rightarrow> coord \<Rightarrow> view \<Rightarrow> view" where
  "setLatLng h c v =
     (case objs v h of
        Some (Marker old ic) \<Rightarrow> v\<lparr>objs := (objs v)(h \<mapsto> Marker c ic)\<rparr>
      | _ \<Rightarrow> v)"

text \<open>The effect of \<open>MapComponent\<close>, block by block.\<close>

definition effect_init :: "bool \<Rightarrow> view \<Rightarrow> view" where
  "effect_init mapRef v =
     (if \<not> leafletMap v \<and> mapRef then snd (addTo TileLayer (v\<lparr>leafletMap := True\<rparr>)) else v)"

definition effect_marker :: "props \<Rightarrow> view \<Rightarrow> view" where
  "effect_marker p v =
     (if leafletMap v then
        (case userMarkerRef v of
           Some h \<Rightarrow> setLatLng h (center p) v
         | None \<Rightarrow>
            (case addTo (Marker (center p) (UserIcon (isDistress p))) v of
               (h, v') \<Rightarrow> v'\<lparr>userMarkerRef := Some h\<rparr>))
      else v)"

definition route_points :: "props \<Rightarrow> coord list" where
  "route_points p =
     (if length (routePoints p) > 0 then routePoints p
      else (case destination p of Some d \<Rightarrow> [center p, d] | None \<Rightarrow> []))"

definition effect_route :: "props \<Rightarrow> view \<Rightarrow> view" where
  "effect_route p v =
     (if leafletMap v then
        (let v1 = (case routeLayerRef v of Some h \<Rightarrow> removeLayer h v | None \<Rightarrow> v);
             routeColor = (if isDistress p then ''#ef4444'' else ''#ff007f'');
             points = route_points p
         in if length points > 0 then
              (case addTo (Polyline points routeColor (if isDistress p then ''1, 10'' else [])) v1 of
                 (h, v2) \<Rightarrow> v2\<lparr>routeLayerRef := Some h\<rparr>)
            else v1)
      else v)"

definition zone_color :: "intensity \<Rightarrow> string" where
  "zone_color i = (if i = High then ''#ef4444'' else (if i = Medium then ''#f59e0b'' else ''#3b82f6''))"

definition add_zone :: "view \<Rightarrow> ThreatZone \<Rightarrow> view" where
  "add_zone v zone =
     (let color = zone_color (intensity zone)
      in case addTo (Circle (lat zone, lng zone) (radius zone) color) v of
           (circle, v') \<Rightarrow> v'\<lparr>threatLayersRef := threatLayersRef v' @ [circle]\<rparr>)"

definition remove_threats :: "view \<Rightarrow> view" where
  "remove_threats v =
     (foldl (\<lambda>w layer. removeLayer layer w) v (threatLayersRef v))\<lparr>threatLayersRef := []\<rparr>"

definition effect_threats :: "props \<Rightarrow> view \<Rightarrow> view" where
  "effect_threats p v =
     (if leafletMap v then
        (let v1 = remove_threats v
         in if showThreats p then foldl add_zone v1 (threatZones p) else v1)
      else v)"

text \<open>
  The whole effect. \<open>L\<close> says whether the mapping library is loaded, \<open>mapRef\<close> whether the
  component's element is mounted.
\<close>

definition MapComponent_effect :: "bool \<Rightarrow> bool \<Rightarrow> props \<Rightarrow> view \<Rightarrow> view" where
  "MapComponent_effect L mapRef p v =
     (if \<not> L then v
      else effect_threats p (effect_route p (effect_marker p (effect_init mapRef v))))"

text \<open>
  The dashboard script keeps the same four references in the variables \<open>map\<close>, \<open>userMarker\<close>,
  \<open>routeLine\<close> and \<open>threatOverlays\<close>; they are the fields \<open>leafletMap\<close>, \<open>userMarkerRef\<close>,
  \<open>routeLayerRef\<close> and \<open>threatLayersRef\<close> of the same view. Of its \<open>state\<close>, \<open>updateMap\<close>
  reads the four fields below. A route that is an empty array is not \<open>null\<close>, so it is drawn.
\<close>

record dash_state =
  isSOSActive :: bool
  currentLocation :: coord
  safeRoute :: "coord list option"
  dash_threatZones :: "ThreatZone list"

definition overlay_color :: "intensity \<Rightarrow> string" where
  "overlay_color i = (if i = High then ''#ef4444'' else ''#f59e0b'')"

definition add_overlay :: "view \<Rightarrow> ThreatZone \<Rightarrow> view" where
  "add_overlay v z =
     (let color = overlay_color (intensity z)
      in case addTo (Circle (lat z, lng z) (radius z) color) v of
           (circle, v') \<Rightarrow> v'\<lparr>threatLayersRef := threatLayersRef v' @ [circle]\<rparr>)"

definition updateMap :: "dash_state \<Rightarrow> view \<Rightarrow> view" where
  "updateMap st v =
     (if \<not> leafletMap v then v
      else
        (let v1 = (case userMarkerRef v of Some h \<Rightarrow> removeLayer h v | None \<Rightarrow> v);
             v2 = (case routeLayerRef v1 of Some h \<Rightarrow> removeLayer h v1 | None \<Rightarrow> v1);
             v3 = remove_threats v2;
             v4 = (case addTo (Marker (currentLocation st) (DivIcon (isSOSActive st))) v3 of
                     (h, w) \<Rightarrow> w\<lparr>userMarkerRef := Some h\<rparr>);
             v5 = (case safeRoute st of
                     Some points \<Rightarrow>
                       (case addTo (Polyline points
                                (if isSOSActive st then ''#ef4444'' else ''#ff007f'') []) v4 of
                          (h, w) \<Rightarrow> w\<lparr>routeLayerRef := Some h\<rparr>)
                   | None \<Rightarrow> v4)
         in foldl add_overlay v5 (dash_threatZones st)))"

definition initMap :: "bool \<Rightarrow> dash_state \<Rightarrow> view \<Rightarrow> view" where
  "initMap container st v =
     (if \<not> container \<or> leafletMap v then v
      else updateMap st (snd (addTo TileLayer (v\<lparr>leafletMap := True\<rparr>))))"

text \<open>
  What is on the map: the handles on the map whose objects satisfy a test, and the objects
  themselves.
\<close>

definition is_marker :: "layer \<Rightarrow> bool" where
  "is_marker l = (case l of Marker c ic \<Rightarrow> True | _ \<Rightarrow> False)"

definition is_polyline :: "layer \<Rightarrow> bool" where
  "is_polyline l = (case l of Polyline ps c d \<Rightarrow> True | _ \<Rightarrow> False)"

definition is_circle :: "layer \<Rightarrow> bool" where
  "is_circle l = (case l of Circle c r col \<Rightarrow> True | _ \<Rightarrow> False)"

definition holds_at :: "(layer \<Rightarrow> bool) \<Rightarrow> view \<Rightarrow> nat \<Rightarrow> bool" where
  "holds_at P v h = (case objs v h of Some l \<Rightarrow> P l | None \<Rightarrow> False)"

definition handles_of :: "(layer \<Rightarrow> bool) \<Rightarrow> view \<Rightarrow> nat list" where
  "handles_of P v = filter (holds_at P v) (on_map v)"

definition shown :: "(layer \<Rightarrow> bool) \<Rightarrow> view \<Rightarrow> layer option list" where
  "shown P v = map (objs v) (handles_of P v)"

text \<open>
  The states the reconcilers keep to: no handle is on the map twice, every handle on the map
  has been handed out, the marker on the map is the one \<open>userMarkerRef\<close> names, a line on the
  map is the one \<open>routeLayerRef\<close> names, that reference names a line that has been handed
  out, and the circles on the map are those of \<open>threatLayersRef\<close>.
\<close>

definition wf_map :: "view \<Rightarrow> bool" where
  "wf_map v = (distinct (on_map v) \<and> (\<forall>h \<in> set (on_map v). h < fresh v))"

definition view_inv :: "view \<Rightarrow> bool" where
  "view_inv v =
     (wf_map v \<and>
      handles_of is_marker v = (case userMarkerRef v of None \<Rightarrow> [] | Some h \<Rightarrow> [h]) \<and>
      set (handles_of is_polyline v) \<subseteq> set_option (routeLayerRef v) \<and>
      (\<forall>h \<in> set_option (routeLayerRef v). h < fresh v \<and> holds_at is_polyline v h) \<and>
      handles_of is_circle v = threatLayersRef v)"

text \<open>
  The bodies of the two loops over the zones differ in the colour only; this is their common
  form, and the object each of them creates.
\<close>

definition zone_circle :: "(intensity \<Rightarrow> string) \<Rightarrow> ThreatZone \<Rightarrow> layer" where
  "zone_circle col z = Circle (lat z, lng z) (radius z) (col (intensity z))"

definition add_circle :: "(intensity \<Rightarrow> string) \<Rightarrow> view \<Rightarrow> ThreatZone \<Rightarrow> view" where
  "add_circle col v z =
     (snd (addTo (zone_circle col z) v))\<lparr>threatLayersRef := threatLayersRef v @ [fresh v]\<rparr>"

text \<open>The first block of the route step and of \<open>updateMap\<close>: take the old line off the map.\<close>

definition drop_route :: "view \<Rightarrow> view" where
  "drop_route v = (case routeLayerRef v of Some h \<Rightarrow> removeLayer h v | None \<Rightarrow> v)"

text \<open>The line the route step draws through given points, and the first block of \<open>updateMap\<close>.\<close>

definition route_line :: "props \<Rightarrow> coord list \<Rightarrow> layer" where
  "route_line p points =
     Polyline points (if isDistress p then ''#ef4444'' else ''#ff007f'')
       (if isDistress p then ''1, 10'' else [])"

definition drop_marker :: "view \<Rightarrow> view" where
  "drop_marker v = (case userMarkerRef v of Some h \<Rightarrow> removeLayer h v | None \<Rightarrow> v)"

text \<open>The middle of \<open>updateMap\<close>: the new marker and, if there is a route, the new line.\<close>

definition draw_marker_route :: "dash_state \<Rightarrow> view \<Rightarrow> view" where
  "draw_marker_route st v =
     (let v4 = (case addTo (Marker (currentLocation st) (DivIcon (isSOSActive st))) v of
                  (h, w) \<Rightarrow> w\<lparr>userMarkerRef := Some h\<rparr>)
      in case safeRoute st of
           Some points \<Rightarrow>
             (case addTo (Polyline points
                      (if isSOSActive st then ''#ef4444'' else ''#ff007f'') []) v4 of
                (h, w) \<Rightarrow> w\<lparr>routeLayerRef := Some h\<rparr>)
         | None \<Rightarrow> v4)"

section \<open>Sample inputs\<close>

definition two_429_then_down :: "nat \<Rightarrow> js_error + nat" where
  "two_429_then_down k =
     (if k < 2 then Inl (Error (Some ''HTTP 429 Too Many Requests''))
      else Inl (Error (Some ''network down'')))"

definition half :: "nat \<Rightarrow> real" where
  "half n = 1 / 2"

definition score_150 :: json where
  "score_150 = JObj
     [(''total'', JNum 150), (''lighting'', JNum 85), (''safetyHistory'', JNum 90),
      (''crowdActivity'', JNum 75), (''description'', JStr ''Very safe.'')]"

definition ok_reply :: "nat \<Rightarrow> reply" where
  "ok_reply k = Responds (Inr (JArr []))"

definition down_reply :: "nat \<Rightarrow> reply" where
  "down_reply k = Rejects (Error (Some ''network down''))"

definition route_down :: services where
  "route_down = \<lparr>score_svc = ok_reply, zones_svc = ok_reply, route_svc = down_reply,
     trend_svc = ok_reply\<rparr>"

definition blank_turn :: "ustring \<times> (js_error + ustring)" where
  "blank_turn = ([32, 160, 9], Inr (units ''Stay on the main road.''))"

definition first_turn :: "ustring \<times> (js_error + ustring)" where
  "first_turn = (units ''Is this street safe?'', Inr (units ''Stay on the main road.''))"

definition failed_turn :: "ustring \<times> (js_error + ustring)" where
  "failed_turn = (units ''And the next one?'', Inl (Error (Some ''429 Too Many Requests'')))"

definition typed_chat :: chat where
  "typed_chat = chat0\<lparr>chatInput := units ''Is this street safe?''\<rparr>"

definition scenario_A :: props where
  "scenario_A = \<lparr>center = (40.7484, -74.0010), destination = Some (40.7580, -73.9855),
     routePoints = [], zoom = 14, threatZones = [], showThreats = True, safetyScore = 85,
     isDistress = False\<rparr>"

definition zone_1 :: ThreatZone where
  "zone_1 = \<lparr>zone_id = ''z1'', lat = 40.75, lng = -73.99, radius = 300, intensity = Medium,
     reason = ''Poor lighting''\<rparr>"

definition zone_2 :: ThreatZone where
  "zone_2 = \<lparr>zone_id = ''z2'', lat = 40.752, lng = -73.995, radius = 150, intensity = Low,
     reason = ''Few passers-by''\<rparr>"

definition with_zones :: props where
  "with_zones = scenario_A\<lparr>threatZones := [zone_1, zone_2]\<rparr>"

definition hidden_zones :: props where
  "hidden_zones = scenario_A\<lparr>threatZones := [zone_1, zone_2], showThreats := False\<rparr>"

definition in_distress :: props where
  "in_distress = scenario_A\<lparr>isDistress := True\<rparr>"

definition dash_1 :: dash_state where
  "dash_1 = \<lparr>isSOSActive = False, currentLocation = (40.7484, -74.0010),
     safeRoute = Some [(40.7484, -74.0010), (40.7580, -73.9855)],
     dash_threatZones = [zone_1, zone_2]\<rparr>"

section \<open>Properties of the executor\<close>

lemma withRetry_stop:
  "\<not> rate_limited (fn i) \<or> retries = 0 \<Longrightarrow>
     withRetry fn rnd i retries delay = \<lparr>outcome = fn i, attempts = 1, waits = []\<rparr>"
  by (subst withRetry.simps) (auto simp: rate_limited_def split: sum.splits)

lemma withRetry_retry:
  "rate_limited (fn i) \<Longrightarrow>
     withRetry fn rnd i (Suc n) delay =
       (let r = withRetry fn rnd (Suc i) n (delay * 2)
        in r\<lparr>attempts := attempts r + 1, waits := (delay + rnd i * 1000) # waits r\<rparr>)"
  by (subst withRetry.simps) (auto simp: rate_limited_def split: sum.splits)

lemma attempts_waits: "attempts (withRetry fn rnd i retries delay) = Suc (length (waits (withRetry fn rnd i retries delay)))"
proof (induction retries arbitrary: i delay)
  case 0
  show ?case by (simp add: withRetry_stop)
next
  case (Suc n)
  show ?case
  proof (cases "rate_limited (fn i)")
    case True
    then show ?thesis using Suc.IH [of "Suc i" "delay * 2"] by (simp add: withRetry_retry Let_def)
  next
    case False
    then show ?thesis by (simp add: withRetry_stop)
  qed
qed

lemma waits_le: "length (waits (withRetry fn rnd i retries delay)) \<le> retries"
proof (induction retries arbitrary: i delay)
  case 0
  show ?case by (simp add: withRetry_stop)
next
  case (Suc n)
  show ?case
  proof (cases "rate_limited (fn i)")
    case True
    then show ?thesis using Suc.IH [of "Suc i" "delay * 2"] by (simp add: withRetry_retry Let_def)
  next
    case False
    then show ?thesis by (simp add: withRetry_stop)
  qed
qed

lemma waits_rate_limited:
  "k < length (waits (withRetry fn rnd i retries delay)) \<Longrightarrow> rate_limited (fn (i + k))"
proof (induction retries arbitrary: i delay k)
  case 0
  then show ?case by (simp add: withRetry_stop)
next
  case (Suc n)
  show ?case
  proof (cases "rate_limited (fn i)")
    case True
    show ?thesis
    proof (cases k)
      case 0
      with True show ?thesis by simp
    next
      case (Suc j)
      with Suc.prems True have "j < length (waits (withRetry fn rnd (Suc i) n (delay * 2)))"
        by (simp add: withRetry_retry Let_def)
      from Suc.IH [OF this] Suc show ?thesis by simp
    qed
  next
    case False
    with Suc.prems show ?thesis by (simp add: withRetry_stop)
  qed
qed

lemma waits_stop:
  "length (waits (withRetry fn rnd i retries delay)) < retries \<Longrightarrow>
     \<not> rate_limited (fn (i + length (waits (withRetry fn rnd i retries delay))))"
proof (induction retries arbitrary: i delay)
  case 0
  then show ?case by simp
next
  case (Suc n)
  show ?case
  proof (cases "rate_limited (fn i)")
    case True
    with Suc.prems have "length (waits (withRetry fn rnd (Suc i) n (delay * 2))) < n"
      by (simp add: withRetry_retry Let_def)
    from Suc.IH [OF this] True show ?thesis by (simp add: withRetry_retry Let_def)
  next
    case False
    then show ?thesis by (simp add: withRetry_stop)
  qed
qed

lemma outcome_last:
  "outcome (withRetry fn rnd i retries delay) = fn (i + length (waits (withRetry fn rnd i retries delay)))"
proof (induction retries arbitrary: i delay)
  case 0
  show ?case by (simp add: withRetry_stop)
next
  case (Suc n)
  show ?case
  proof (cases "rate_limited (fn i)")
    case True
    then show ?thesis using Suc.IH [of "Suc i" "delay * 2"] by (simp add: withRetry_retry Let_def)
  next
    case False
    then show ?thesis by (simp add: withRetry_stop)
  qed
qed

lemma waits_nth:
  "k < length (waits (withRetry fn rnd i retries delay)) \<Longrightarrow>
     waits (withRetry fn rnd i retries delay) ! k = delay * 2 ^ k + rnd (i + k) * 1000"
proof (induction retries arbitrary: i delay k)
  case 0
  then show ?case by (simp add: withRetry_stop)
next
  case (Suc n)
  show ?case
  proof (cases "rate_limited (fn i)")
    case True
    show ?thesis
    proof (cases k)
      case 0
      with True show ?thesis by (simp add: withRetry_retry Let_def)
    next
      case (Suc j)
      with Suc.prems True have "j < length (waits (withRetry fn rnd (Suc i) n (delay * 2)))"
        by (simp add: withRetry_retry Let_def)
      from Suc.IH [OF this] Suc True show ?thesis by (simp add: withRetry_retry Let_def)
    qed
  next
    case False
    with Suc.prems show ?thesis by (simp add: withRetry_stop)
  qed
qed

lemma withRetry_plain_eq:
  "withRetry_plain fn i retries delay = withRetry fn (\<lambda>k. 0) i retries delay"
proof (induction retries arbitrary: i delay)
  case 0
  show ?case
    by (subst withRetry_plain.simps, subst withRetry.simps) (simp split: sum.splits)
next
  case (Suc n)
  show ?case
    by (subst withRetry_plain.simps, subst withRetry.simps)
      (simp add: Suc.IH Let_def split: sum.splits)
qed

text \<open>
  Claim C3. Whatever the operation answers and whatever the budget, the executor calls the
  operation at most \<open>retries + 1\<close> times. The number \<open>n\<close> of its retries is the smaller of
  \<open>retries\<close> and the number of attempts before the first one that is not a rate-limit failure:
  the first \<open>n\<close> attempts are rate-limit failures and, unless the budget is used up, the next
  one is not. An attempt that fails first without the rate-limit signature is the only
  attempt, and the outcome handed to the caller is the last attempt's outcome as it is. The
  same holds for the executor of the dashboard script.
\<close>

theorem withRetry_attempts:
  fixes fn :: "nat \<Rightarrow> js_error + 'a"
  shows
  "(let r = withRetry fn rnd i retries delay; n = attempts r - 1 in
      attempts r \<le> retries + 1 \<and> attempts r = n + 1 \<and> length (waits r) = n \<and>
      n \<le> retries \<and>
      (\<forall>k<n. rate_limited (fn (i + k))) \<and>
      (n < retries \<longrightarrow> \<not> rate_limited (fn (i + n))) \<and>
      (\<not> rate_limited (fn i) \<longrightarrow> attempts r = 1 \<and> outcome r = fn i) \<and>
      outcome r = fn (i + n)) \<and>
   (let r = withRetry_plain fn i retries delay; n = attempts r - 1 in
      attempts r \<le> retries + 1 \<and> attempts r = n + 1 \<and> length (waits r) = n \<and>
      n \<le> retries \<and>
      (\<forall>k<n. rate_limited (fn (i + k))) \<and>
      (n < retries \<longrightarrow> \<not> rate_limited (fn (i + n))) \<and>
      (\<not> rate_limited (fn i) \<longrightarrow> attempts r = 1 \<and> outcome r = fn i) \<and>
      outcome r = fn (i + n))"
proof -
  have main: "attempts r \<le> retries + 1 \<and> attempts r = (attempts r - 1) + 1 \<and>
      length (waits r) = attempts r - 1 \<and> attempts r - 1 \<le> retries \<and>
      (\<forall>k<attempts r - 1. rate_limited (fn (i + k))) \<and>
      (attempts r - 1 < retries \<longrightarrow> \<not> rate_limited (fn (i + (attempts r - 1)))) \<and>
      (\<not> rate_limited (fn i) \<longrightarrow> attempts r = 1 \<and> outcome r = fn i) \<and>
      outcome r = fn (i + (attempts r - 1))"
    if r: "r = withRetry fn rnd' i retries delay" for r :: "'a run" and rnd'
  proof -
    have a: "attempts r = Suc (length (waits r))"
      unfolding r by (rule attempts_waits)
    have b: "length (waits r) \<le> retries"
      unfolding r by (rule waits_le)
    have c: "\<forall>k<length (waits r). rate_limited (fn (i + k))"
      unfolding r using waits_rate_limited [of _ fn rnd' i retries delay] by blast
    have d: "length (waits r) < retries \<longrightarrow> \<not> rate_limited (fn (i + length (waits r)))"
      unfolding r using waits_stop [of fn rnd' i retries delay] by blast
    have e: "outcome r = fn (i + length (waits r))"
      unfolding r by (rule outcome_last)
    have f: "\<not> rate_limited (fn i) \<longrightarrow> attempts r = 1 \<and> outcome r = fn i"
      unfolding r by (simp add: withRetry_stop)
    from a b c d e f show ?thesis by simp
  qed
  show ?thesis
    unfolding Let_def withRetry_plain_eq
    using main [OF refl, of rnd] main [OF refl, of "\<lambda>k. 0"] by blast
qed

theorem withRetry_attempts_witness:
  "attempts (withRetry two_429_then_down half 0 4 2000) = 3 \<and>
   waits (withRetry two_429_then_down half 0 4 2000) = [2500, 4500] \<and>
   outcome (withRetry two_429_then_down half 0 4 2000) = Inl (Error (Some ''network down'')) \<and>
   rate_limited (two_429_then_down 0) \<and> rate_limited (two_429_then_down 1) \<and>
   \<not> rate_limited (two_429_then_down 2) \<and>
   attempts (withRetry_plain two_429_then_down 0 4 2000) = 3"
proof -
  have a: "attempts (withRetry two_429_then_down half 0 4 2000) = 3"
    by code_simp
  have w: "waits (withRetry two_429_then_down half 0 4 2000) = [2500, 4500]"
    by code_simp
  have r: "rate_limited (two_429_then_down 0)" "rate_limited (two_429_then_down 1)"
      "\<not> rate_limited (two_429_then_down 2)"
    by code_simp+
  have o: "outcome (withRetry two_429_then_down half 0 4 2000) = Inl (Error (Some ''network down''))"
    by code_simp
  have p: "attempts (withRetry_plain two_429_then_down 0 4 2000) = 3"
    by code_simp
  show ?thesis
    using withRetry_attempts [of two_429_then_down half 0 4 2000] a w r o p
    by (simp add: Let_def)
qed

lemma waits_increasing:
  assumes rnd: "\<forall>n. 0 \<le> rnd n \<and> rnd n \<le> 1" and d: "1000 < delay"
  shows "sorted_wrt (<) (waits (withRetry fn rnd i retries delay))"
proof -
  define ws where "ws = waits (withRetry fn rnd i retries delay)"
  have nth: "ws ! k = delay * 2 ^ k + rnd (i + k) * 1000" if "k < length ws" for k
    using that unfolding ws_def by (rule waits_nth)
  have jit: "0 \<le> rnd m * 1000 \<and> rnd m * 1000 \<le> 1000" for m
    using rnd [rule_format, of m] by simp
  have step: "ws ! a < ws ! b" if ab: "a < b" "b < length ws" for a b
  proof -
    have "(2::real) ^ a * 2 \<le> 2 ^ b"
      using ab(1) power_increasing [of "Suc a" b "2::real"] by simp
    moreover have "1 \<le> (2::real) ^ a" by simp
    ultimately have "2 ^ a + 1 \<le> (2::real) ^ b" by linarith
    then have "delay * (2 ^ a + 1) \<le> delay * 2 ^ b"
      using d by (intro mult_left_mono) auto
    then have "delay * 2 ^ a + delay \<le> delay * 2 ^ b"
      by (simp add: algebra_simps)
    with d jit [of "i + a"] jit [of "i + b"] nth [of a] nth [of b] ab
    show ?thesis by simp
  qed
  then show ?thesis
    unfolding ws_def [symmetric] by (simp add: sorted_wrt_iff_nth_less)
qed

text \<open>
  Claim C4. \<open>Math.random\<close> yields a number from 0 up to 1, so the jitter is at most 1000 ms.
  In every run, the delay waited after attempt \<open>k\<close> is the initial delay times \<open>2 ^ (k - 1)\<close>
  plus a jitter between 0 and 1000 ms. The executor is private to the service module and
  every stage calls it with the default initial delay of 2000 ms; with it, and for every
  operation, retry budget and jitter, the delays of one run are strictly increasing.
\<close>

theorem withRetry_backoff:
  assumes rnd: "\<forall>n. 0 \<le> rnd n \<and> rnd n \<le> 1"
  shows "(let ws = waits (withRetry fn rnd i retries delay) in
      (\<forall>k. 1 \<le> k \<and> k \<le> length ws \<longrightarrow>
         (\<exists>jitter. 0 \<le> jitter \<and> jitter \<le> 1000 \<and> ws ! (k - 1) = delay * 2 ^ (k - 1) + jitter))) \<and>
     sorted_wrt (<) (waits (withRetry fn rnd i retries 2000)) \<and>
     sorted_wrt (<) (waits (analyzeRouteSafety svc rnd)) \<and>
     sorted_wrt (<) (waits (getThreatZones svc rnd)) \<and>
     sorted_wrt (<) (waits (generateSafeRoute svc rnd)) \<and>
     sorted_wrt (<) (waits (getRiskTrend svc rnd))"
proof -
  define ws where "ws = waits (withRetry fn rnd i retries delay)"
  have nth: "ws ! k = delay * 2 ^ k + rnd (i + k) * 1000" if "k < length ws" for k
    using that unfolding ws_def by (rule waits_nth)
  have jit: "0 \<le> rnd m * 1000 \<and> rnd m * 1000 \<le> 1000" for m
    using rnd [rule_format, of m] by simp
  have first: "\<exists>jitter. 0 \<le> jitter \<and> jitter \<le> 1000 \<and> ws ! (k - 1) = delay * 2 ^ (k - 1) + jitter"
    if "1 \<le> k" "k \<le> length ws" for k
  proof -
    from that have "k - 1 < length ws" by simp
    from nth [OF this] jit [of "i + (k - 1)"] show ?thesis by blast
  qed
  have incr: "sorted_wrt (<) (waits (withRetry g rnd j n 2000))"
    for g :: "nat \<Rightarrow> js_error + 'b" and j n
    by (rule waits_increasing [OF rnd]) simp
  have stages: "sorted_wrt (<) (waits (analyzeRouteSafety svc rnd))"
    "sorted_wrt (<) (waits (getThreatZones svc rnd))"
    "sorted_wrt (<) (waits (generateSafeRoute svc rnd))"
    "sorted_wrt (<) (waits (getRiskTrend svc rnd))"
    unfolding analyzeRouteSafety_def getThreatZones_def generateSafeRoute_def getRiskTrend_def
    by (rule waits_increasing [OF rnd], simp)+
  have here: "sorted_wrt (<) (waits (withRetry fn rnd i retries 2000))"
    by (rule waits_increasing [OF rnd]) simp
  from first here stages show ?thesis
    unfolding Let_def ws_def by blast
qed

theorem withRetry_backoff_witness:
  "(\<forall>n. 0 \<le> half n \<and> half n \<le> 1) \<and>
   waits (withRetry two_429_then_down half 0 4 2000) = [2500, 4500] \<and>
   sorted_wrt (<) (waits (withRetry two_429_then_down half 0 4 2000))"
proof -
  have h: "\<forall>n. 0 \<le> half n \<and> half n \<le> 1" by (simp add: half_def)
  have w: "waits (withRetry two_429_then_down half 0 4 2000) = [2500, 4500]"
    by code_simp
  show ?thesis
    using h withRetry_backoff [OF h, of two_429_then_down 0 4 2000] w
    by (simp add: Let_def)
qed

section \<open>Properties of the stages and the orchestrator\<close>

lemma withRetry_outcome_constant:
  "outcome (withRetry (\<lambda>k. x) rnd i retries delay) = x"
  using outcome_last [of "\<lambda>k. x" rnd i retries delay] by simp

text \<open>
  Claim C5, as amended. The score stage returns a parseable response as the parser gives it,
  without a check of its fields; for every response that cannot be parsed it returns the one
  fixed fallback score, which has the expected shape and all four numbers in \<open>[0, 100]\<close>.
  Only the score stage does so: in the route, trend and zone stages the parser's error is the
  stage's failure, through the executor as well.
\<close>

theorem score_parse_fallback:
  "analyzeRouteSafety_fn (Responds (Inr v)) = Inr v \<and>
   analyzeRouteSafety_fn (Responds (Inl e)) = Inr fallback_score \<and>
   outcome (analyzeRouteSafety (\<lambda>k. Responds (Inr v)) rnd) = Inr v \<and>
   outcome (analyzeRouteSafety (\<lambda>k. Responds (Inl e)) rnd) = Inr fallback_score \<and>
   score_shape fallback_score \<and> score_in_range fallback_score \<and>
   generateSafeRoute_fn (Responds (Inl e)) = Inl e \<and>
   getRiskTrend_fn (Responds (Inl e)) = Inl e \<and>
   getThreatZones_fn (Responds (Inl e)) = Inl e \<and>
   outcome (generateSafeRoute (\<lambda>k. Responds (Inl e)) rnd) = Inl e \<and>
   outcome (getRiskTrend (\<lambda>k. Responds (Inl e)) rnd) = Inl e \<and>
   outcome (getThreatZones (\<lambda>k. Responds (Inl e)) rnd) = Inl e"
proof -
  have shape: "score_shape fallback_score"
    by (simp add: score_shape_def fallback_score_def num_field_def str_field_def)
  have range: "score_in_range fallback_score"
    by (simp add: score_in_range_def fallback_score_def num_field_def percent_def)
  show ?thesis
    using shape range
    by (simp add: analyzeRouteSafety_fn_def generateSafeRoute_fn_def getRiskTrend_fn_def
        getThreatZones_fn_def analyzeRouteSafety_def generateSafeRoute_def getRiskTrend_def
        getThreatZones_def withRetry_outcome_constant)
qed

text \<open>
  A response of the expected shape with \<open>total = 150\<close> is returned as it is, with a field
  outside \<open>[0, 100]\<close>.
\<close>

theorem score_out_of_range_counterexample:
  "score_shape score_150 \<and>
   analyzeRouteSafety_fn (Responds (Inr score_150)) = Inr score_150 \<and>
   num_field score_150 ''total'' = Some 150 \<and>
   \<not> score_in_range score_150"
  by (simp add: score_shape_def score_in_range_def score_150_def num_field_def str_field_def
      percent_def analyzeRouteSafety_fn_def)

lemma init_loading: "\<not> app_isLoading (fst (init sv rnd st))"
  by (simp add: init_def init_finally_def init_catch_def Let_def split: sum.splits prod.splits)

text \<open>
  Claim C1, as amended. In a run where the score and zone stages succeed and the route stage
  fails, the route field keeps its value (\<open>null\<close> in a first run), the risk-trend stage is not
  called and the trend keeps its value, the score and the zones of the run are stored, and
  the loading flag is cleared.
\<close>

theorem init_route_failure:
  assumes "outcome (analyzeRouteSafety (score_svc sv) rnd) = Inr score"
    and "outcome (getThreatZones (zones_svc sv) rnd) = Inr zones"
    and "outcome (generateSafeRoute (route_svc sv) rnd) = Inl err"
  shows "app_safeRoute (fst (init sv rnd st)) = app_safeRoute st \<and>
     app_riskTrend (fst (init sv rnd st)) = app_riskTrend st \<and>
     snd (init sv rnd st) =
       [Call AnalyzeRouteSafety, Sleep 2000, Call GetThreatZones, Sleep 2000, Call GenerateSafeRoute] \<and>
     Call GetRiskTrend \<notin> set (snd (init sv rnd st)) \<and>
     app_safetyScore (fst (init sv rnd st)) = Some score \<and>
     app_threatZones (fst (init sv rnd st)) = zones \<and>
     \<not> app_isLoading (fst (init sv rnd st))"
  using assms
  by (simp add: init_def init_finally_def init_catch_def Let_def)

lemma route_down_outcomes:
  "outcome (analyzeRouteSafety (score_svc route_down) half) = Inr (JArr [])"
  "outcome (getThreatZones (zones_svc route_down) half) = Inr (JArr [])"
  "outcome (generateSafeRoute (route_svc route_down) half) = Inl (Error (Some ''network down''))"
  by (simp_all add: route_down_def analyzeRouteSafety_def getThreatZones_def generateSafeRoute_def
      outcome_last ok_reply_def down_reply_def analyzeRouteSafety_fn_def getThreatZones_fn_def
      generateSafeRoute_fn_def)

theorem init_route_failure_witness:
  "outcome (analyzeRouteSafety (score_svc route_down) half) = Inr (JArr []) \<and>
   outcome (getThreatZones (zones_svc route_down) half) = Inr (JArr []) \<and>
   outcome (generateSafeRoute (route_svc route_down) half) = Inl (Error (Some ''network down'')) \<and>
   app_safeRoute (fst (init route_down half app_state0)) = None \<and>
   app_riskTrend (fst (init route_down half app_state0)) = JArr [] \<and>
   \<not> app_isLoading (fst (init route_down half app_state0))"
  using init_route_failure [OF route_down_outcomes, of app_state0] route_down_outcomes
  by (simp add: app_state0_def)

text \<open>
  The route request is rejected with an error that has no rate-limit signature: one attempt,
  the error reaches \<open>init\<close>, and the risk-trend stage is never called.
\<close>

theorem init_stage4_skipped_counterexample:
  "route_svc route_down 0 = Rejects (Error (Some ''network down'')) \<and>
   \<not> isRateLimit (Error (Some ''network down'')) \<and>
   attempts (generateSafeRoute (route_svc route_down) half) = 1 \<and>
   outcome (generateSafeRoute (route_svc route_down) half) = Inl (Error (Some ''network down'')) \<and>
   Call GetRiskTrend \<notin> set (snd (init route_down half app_state0))"
proof -
  have a: "\<not> isRateLimit (Error (Some ''network down''))"
    by code_simp
  have b: "attempts (generateSafeRoute (route_svc route_down) half) = 1"
    by code_simp
  have c: "snd (init route_down half app_state0) =
     [Call AnalyzeRouteSafety, Sleep 2000, Call GetThreatZones, Sleep 2000, Call GenerateSafeRoute]"
    by (simp add: init_def init_finally_def init_catch_def Let_def route_down_outcomes)
  show ?thesis
    using a b c route_down_outcomes(3) by (simp add: route_down_def down_reply_def)
qed

section \<open>Properties of the chat adapter\<close>

lemma handleSendMessage_blank: "trim (chatInput c) = [] \<Longrightarrow> handleSendMessage answer c = c"
  by (simp add: handleSendMessage_def)

lemma handleSendMessage_sends:
  assumes "trim (chatInput c) \<noteq> []"
  shows "chatInstance (handleSendMessage answer c) =
       Some (case chatInstance c of None \<Rightarrow> created c | Some h \<Rightarrow> h)"
    and "created (handleSendMessage answer c) =
       (case chatInstance c of None \<Rightarrow> Suc (created c) | Some h \<Rightarrow> created c)"
    and "sent (handleSendMessage answer c) =
       sent c @ [(case chatInstance c of None \<Rightarrow> created c | Some h \<Rightarrow> h, chatInput c)]"
    and "chatMessages (handleSendMessage answer c) =
       chatMessages c @ [(User, chatInput c),
         (Model, case answer of Inr text \<Rightarrow> text | Inl err \<Rightarrow> fallback_message err)]"
    and "chatInput (handleSendMessage answer c) = []"
  using assms
  by (auto simp: handleSendMessage_def createSafetyChat_def Let_def
      split: option.splits sum.splits)

lemma sendTurn_inv: "chat_inv c \<Longrightarrow> chat_inv (sendTurn c t)"
proof (cases "trim (fst t) = []")
  case True
  assume "chat_inv c"
  with True show ?thesis
    by (simp add: sendTurn_def handleSendMessage_blank chat_inv_def split: option.splits)
next
  case False
  assume "chat_inv c"
  with False show ?thesis
    by (auto simp: sendTurn_def handleSendMessage_sends chat_inv_def split: option.splits)
qed

lemma sendTurns_snoc: "sendTurns (ts @ [t]) c = sendTurn (sendTurns ts c) t"
  by (simp add: sendTurns_def)

lemma sendTurns_inv: "chat_inv c \<Longrightarrow> chat_inv (sendTurns ts c)"
  by (induction ts rule: rev_induct) (simp_all add: sendTurns_def sendTurn_inv)

lemma chat0_inv: "chat_inv chat0"
  by (simp add: chat_inv_def chat0_def)

lemma sendTurns_sent_length:
  "length (sent (sendTurns ts c)) = length (sent c) + length (filter (\<lambda>t. trim (fst t) \<noteq> []) ts)"
proof (induction ts rule: rev_induct)
  case Nil
  show ?case by (simp add: sendTurns_def)
next
  case (snoc t ts)
  show ?case
  proof (cases "trim (fst t) = []")
    case True
    with snoc show ?thesis
      by (simp add: sendTurns_snoc sendTurn_def handleSendMessage_blank)
  next
    case False
    with snoc show ?thesis
      by (simp add: sendTurns_snoc sendTurn_def handleSendMessage_sends)
  qed
qed

lemma sendTurns_created:
  "chat_inv c \<Longrightarrow> created (sendTurns ts c) = (if sent (sendTurns ts c) = [] then 0 else 1)"
proof (induction ts rule: rev_induct)
  case Nil
  then show ?case
    by (auto simp: sendTurns_def chat_inv_def split: option.splits)
next
  case (snoc t ts)
  have inv: "chat_inv (sendTurns ts c)" using snoc.prems by (rule sendTurns_inv)
  show ?case
  proof (cases "trim (fst t) = []")
    case True
    with snoc show ?thesis
      by (simp add: sendTurns_snoc sendTurn_def handleSendMessage_blank)
  next
    case False
    with inv show ?thesis
      by (auto simp: sendTurns_snoc sendTurn_def handleSendMessage_sends chat_inv_def
          split: option.splits)
  qed
qed

text \<open>
  Claim C9, as amended. A turn whose text is not blank uses the existing session, or creates
  one if there is none yet, calls the session exactly once with the text, and appends the
  user's turn followed by one answer: the response's text, or on failure one of two fixed
  local messages chosen by the error. A turn with a blank text changes nothing. Over a whole
  conversation at most one session is created, exactly when some turn is not blank, every
  call goes to that session, and there is one call per turn that is not blank.
\<close>

theorem handleSendMessage_session:
  "(trim (chatInput c) \<noteq> [] \<longrightarrow>
      chatInstance (handleSendMessage answer c) =
        Some (case chatInstance c of None \<Rightarrow> created c | Some h \<Rightarrow> h) \<and>
      created (handleSendMessage answer c) =
        (case chatInstance c of None \<Rightarrow> Suc (created c) | Some h \<Rightarrow> created c) \<and>
      sent (handleSendMessage answer c) =
        sent c @ [(case chatInstance c of None \<Rightarrow> created c | Some h \<Rightarrow> h, chatInput c)] \<and>
      chatMessages (handleSendMessage answer c) =
        chatMessages c @ [(User, chatInput c),
          (Model, case answer of Inr text \<Rightarrow> text | Inl err \<Rightarrow> fallback_message err)]) \<and>
   (trim (chatInput c) = [] \<longrightarrow> handleSendMessage answer c = c) \<and>
   created (sendTurns turns chat0) \<le> 1 \<and>
   (created (sendTurns turns chat0) = 1 \<longleftrightarrow> (\<exists>t \<in> set turns. trim (fst t) \<noteq> [])) \<and>
   (\<forall>x \<in> set (sent (sendTurns turns chat0)). fst x = 0) \<and>
   length (sent (sendTurns turns chat0)) = length (filter (\<lambda>t. trim (fst t) \<noteq> []) turns)"
proof -
  have inv: "chat_inv (sendTurns turns chat0)"
    by (rule sendTurns_inv [OF chat0_inv])
  have len: "length (sent (sendTurns turns chat0)) = length (filter (\<lambda>t. trim (fst t) \<noteq> []) turns)"
    using sendTurns_sent_length [of turns chat0] by (simp add: chat0_def)
  have cr: "created (sendTurns turns chat0) = (if sent (sendTurns turns chat0) = [] then 0 else 1)"
    by (rule sendTurns_created [OF chat0_inv])
  have ex: "sent (sendTurns turns chat0) \<noteq> [] \<longleftrightarrow> (\<exists>t \<in> set turns. trim (fst t) \<noteq> [])"
  proof -
    have "sent (sendTurns turns chat0) \<noteq> [] \<longleftrightarrow> filter (\<lambda>t. trim (fst t) \<noteq> []) turns \<noteq> []"
      using len by (metis length_0_conv)
    then show ?thesis by (simp add: filter_empty_conv)
  qed
  have all0: "\<forall>x \<in> set (sent (sendTurns turns chat0)). fst x = 0"
    using inv by (simp add: chat_inv_def)
  have cr1: "created (sendTurns turns chat0) \<le> 1"
    using cr by simp
  have cr2: "created (sendTurns turns chat0) = 1 \<longleftrightarrow> (\<exists>t \<in> set turns. trim (fst t) \<noteq> [])"
    using cr ex by (simp split: if_splits)
  show ?thesis
    using len cr1 cr2 all0
    by (simp add: handleSendMessage_sends handleSendMessage_blank)
qed

theorem handleSendMessage_session_witness:
  "trim (chatInput typed_chat) \<noteq> [] \<and>
   chatInstance (handleSendMessage (Inr (units ''Stay on the main road.'')) typed_chat) = Some 0 \<and>
   chatMessages (handleSendMessage (Inr (units ''Stay on the main road.'')) typed_chat) =
     [(User, units ''Is this street safe?''), (Model, units ''Stay on the main road.'')] \<and>
   trim (fst first_turn) \<noteq> [] \<and> trim (fst failed_turn) \<noteq> [] \<and> trim (fst blank_turn) = [] \<and>
   created (sendTurns [first_turn, blank_turn, failed_turn] chat0) = 1 \<and>
   sent (sendTurns [first_turn, blank_turn, failed_turn] chat0) =
     [(0, units ''Is this street safe?''), (0, units ''And the next one?'')] \<and>
   chatMessages (sendTurns [first_turn, blank_turn, failed_turn] chat0) =
     [(User, units ''Is this street safe?''), (Model, units ''Stay on the main road.''),
      (User, units ''And the next one?''),
      (Model, units ''Service busy. I'm still watching your route locally.'')]"
proof -
  have a: "trim (fst first_turn) \<noteq> []" "trim (fst failed_turn) \<noteq> []" "trim (fst blank_turn) = []"
    "trim (chatInput typed_chat) \<noteq> []"
    by (simp_all add: trim_def js_space_def first_turn_def failed_turn_def blank_turn_def
        typed_chat_def chat0_def units_def)
  have b: "sent (sendTurns [first_turn, blank_turn, failed_turn] chat0) =
     [(0, units ''Is this street safe?''), (0, units ''And the next one?'')]"
    by (simp add: sendTurns_def sendTurn_def handleSendMessage_def createSafetyChat_def chat0_def
        first_turn_def blank_turn_def failed_turn_def typed_chat_def fallback_message_def
        message_includes_429_def str_includes_def trim_def js_space_def units_def Let_def)
  have c: "chatMessages (sendTurns [first_turn, blank_turn, failed_turn] chat0) =
     [(User, units ''Is this street safe?''), (Model, units ''Stay on the main road.''),
      (User, units ''And the next one?''),
      (Model, units ''Service busy. I'm still watching your route locally.'')]"
    by (simp add: sendTurns_def sendTurn_def handleSendMessage_def createSafetyChat_def chat0_def
        first_turn_def blank_turn_def failed_turn_def typed_chat_def fallback_message_def
        message_includes_429_def str_includes_def trim_def js_space_def units_def Let_def)
  have d: "chatInstance typed_chat = None" "created typed_chat = 0" "chatMessages typed_chat = []"
    "chatInput typed_chat = units ''Is this street safe?''"
    by (simp_all add: typed_chat_def chat0_def)
  show ?thesis
    using handleSendMessage_session [of typed_chat "Inr (units ''Stay on the main road.'')"
        "[first_turn, blank_turn, failed_turn]"] a b c d
    by auto
qed

text \<open>
  A first turn whose text is a blank, a no-break space and a tab appends nothing and creates
  no session.
\<close>

theorem handleSendMessage_blank_counterexample:
  "fst blank_turn = [32, 160, 9] \<and>
   chatMessages (sendTurn chat0 blank_turn) = [] \<and>
   chatInstance (sendTurn chat0 blank_turn) = None \<and>
   created (sendTurn chat0 blank_turn) = 0"
  by (simp add: sendTurn_def handleSendMessage_def chat0_def blank_turn_def trim_def js_space_def)

section \<open>Properties of the view reconciler\<close>

subsection \<open>The library calls\<close>

lemma addTo_fields [simp]:
  "fst (addTo l v) = fresh v"
  "on_map (snd (addTo l v)) = on_map v @ [fresh v]"
  "fresh (snd (addTo l v)) = Suc (fresh v)"
  "objs (snd (addTo l v)) = (objs v)(fresh v \<mapsto> l)"
  "leafletMap (snd (addTo l v)) = leafletMap v"
  "userMarkerRef (snd (addTo l v)) = userMarkerRef v"
  "routeLayerRef (snd (addTo l v)) = routeLayerRef v"
  "threatLayersRef (snd (addTo l v)) = threatLayersRef v"
  by (simp_all add: addTo_def)

lemma removeLayer_fields [simp]:
  "on_map (removeLayer h v) = removeAll h (on_map v)"
  "fresh (removeLayer h v) = fresh v"
  "objs (removeLayer h v) = objs v"
  "leafletMap (removeLayer h v) = leafletMap v"
  "userMarkerRef (removeLayer h v) = userMarkerRef v"
  "routeLayerRef (removeLayer h v) = routeLayerRef v"
  "threatLayersRef (removeLayer h v) = threatLayersRef v"
  by (simp_all add: removeLayer_def)

lemma handles_of_cong:
  "on_map v' = on_map v \<Longrightarrow> (\<And>h. h \<in> set (on_map v) \<Longrightarrow> holds_at P v' h = holds_at P v h) \<Longrightarrow>
     handles_of P v' = handles_of P v"
  by (simp add: handles_of_def cong: filter_cong)

lemma holds_at_objs: "objs v' = objs v \<Longrightarrow> holds_at P v' = holds_at P v"
  unfolding holds_at_def by (erule ssubst) (rule refl)

lemma handles_of_same: "objs v' = objs v \<Longrightarrow> on_map v' = on_map v \<Longrightarrow> handles_of P v' = handles_of P v"
  using holds_at_objs [of v' v P] by (simp add: handles_of_def)

lemma shown_same: "objs v' = objs v \<Longrightarrow> on_map v' = on_map v \<Longrightarrow> shown P v' = shown P v"
  using handles_of_same [of v' v P] by (simp add: shown_def)

lemma handles_of_subset: "set (handles_of P v) \<subseteq> set (on_map v)"
  by (simp add: handles_of_def)

lemma handles_of_holds: "h \<in> set (handles_of P v) \<Longrightarrow> holds_at P v h"
  by (simp add: handles_of_def)

lemma handles_of_addTo:
  assumes "wf_map v"
  shows "handles_of P (snd (addTo l v)) = handles_of P v @ (if P l then [fresh v] else [])"
proof -
  have "holds_at P (snd (addTo l v)) h = holds_at P v h" if "h \<in> set (on_map v)" for h
    using that assms by (auto simp: holds_at_def wf_map_def)
  then have "filter (holds_at P (snd (addTo l v))) (on_map v) = filter (holds_at P v) (on_map v)"
    by (simp cong: filter_cong)
  then show ?thesis
    by (simp add: handles_of_def) (simp add: holds_at_def)
qed

lemma shown_addTo:
  assumes "wf_map v"
  shows "shown P (snd (addTo l v)) = shown P v @ (if P l then [Some l] else [])"
proof -
  have "h \<noteq> fresh v" if "h \<in> set (handles_of P v)" for h
    using that assms handles_of_subset [of P v] by (auto simp: wf_map_def)
  then have "map (objs (snd (addTo l v))) (handles_of P v) = map (objs v) (handles_of P v)"
    by simp
  then show ?thesis
    by (simp add: shown_def handles_of_addTo [OF assms])
qed

lemma wf_map_addTo: "wf_map v \<Longrightarrow> wf_map (snd (addTo l v))"
  by (auto simp: wf_map_def)

lemma handles_of_removeLayer: "handles_of P (removeLayer h v) = removeAll h (handles_of P v)"
  using holds_at_objs [of "removeLayer h v" v P]
  by (simp add: handles_of_def removeAll_filter_not_eq conj_commute)

lemma wf_map_removeLayer: "wf_map v \<Longrightarrow> wf_map (removeLayer h v)"
  by (auto simp: wf_map_def distinct_removeAll)

lemma handles_of_removeLayer_other:
  "\<not> holds_at P v h \<Longrightarrow> handles_of P (removeLayer h v) = handles_of P v"
proof -
  assume "\<not> holds_at P v h"
  then have "h \<notin> set (handles_of P v)"
    using handles_of_holds [of h P v] by blast
  then show ?thesis
    by (simp add: handles_of_removeLayer)
qed

lemma shown_removeLayer_other:
  "\<not> holds_at P v h \<Longrightarrow> shown P (removeLayer h v) = shown P v"
  by (simp add: shown_def handles_of_removeLayer_other)

text \<open>The three tests exclude one another.\<close>

lemma kinds_disjoint:
  "holds_at is_polyline v h \<Longrightarrow> \<not> holds_at is_marker v h"
  "holds_at is_polyline v h \<Longrightarrow> \<not> holds_at is_circle v h"
  "holds_at is_circle v h \<Longrightarrow> \<not> holds_at is_marker v h"
  "holds_at is_circle v h \<Longrightarrow> \<not> holds_at is_polyline v h"
  "holds_at is_marker v h \<Longrightarrow> \<not> holds_at is_polyline v h"
  "holds_at is_marker v h \<Longrightarrow> \<not> holds_at is_circle v h"
  by (auto simp: holds_at_def is_marker_def is_polyline_def is_circle_def
      split: option.splits layer.splits)

lemma holds_at_addTo_old:
  "h \<noteq> fresh v \<Longrightarrow> holds_at P (snd (addTo l v)) h = holds_at P v h"
  by (simp add: holds_at_def)

lemma view0_inv: "view_inv view0"
  by (simp add: view_inv_def wf_map_def view0_def handles_of_def)

subsection \<open>Creating the map\<close>

lemma effect_init_refs [simp]:
  "userMarkerRef (effect_init m v) = userMarkerRef v"
  "routeLayerRef (effect_init m v) = routeLayerRef v"
  "threatLayersRef (effect_init m v) = threatLayersRef v"
  "leafletMap (effect_init m v) = (leafletMap v \<or> m)"
  by (auto simp: effect_init_def)

lemma wf_map_leafletMap [simp]: "wf_map (v\<lparr>leafletMap := b\<rparr>) = wf_map v"
  by (simp add: wf_map_def)

lemma handles_of_leafletMap [simp]: "handles_of P (v\<lparr>leafletMap := b\<rparr>) = handles_of P v"
  by (rule handles_of_same) simp_all

lemma shown_leafletMap [simp]: "shown P (v\<lparr>leafletMap := b\<rparr>) = shown P v"
  by (rule shown_same) simp_all

lemma effect_init_wf: "wf_map v \<Longrightarrow> wf_map (effect_init m v)"
  by (simp add: effect_init_def wf_map_addTo)

lemma effect_init_handles:
  "wf_map v \<Longrightarrow> \<not> P TileLayer \<Longrightarrow> handles_of P (effect_init m v) = handles_of P v"
  by (simp add: effect_init_def handles_of_addTo)

lemma effect_init_shown:
  "wf_map v \<Longrightarrow> \<not> P TileLayer \<Longrightarrow> shown P (effect_init m v) = shown P v"
  by (simp add: effect_init_def shown_addTo)

lemma not_tile [simp]: "\<not> is_marker TileLayer" "\<not> is_polyline TileLayer" "\<not> is_circle TileLayer"
  by (simp_all add: is_marker_def is_polyline_def is_circle_def)

lemma effect_init_fresh: "fresh v \<le> fresh (effect_init m v)"
  by (simp add: effect_init_def)

lemma effect_init_on_map: "set (on_map (effect_init m v)) \<subseteq> set (on_map v) \<union> {h. fresh v \<le> h}"
  by (auto simp: effect_init_def)

lemma effect_init_holds:
  "h < fresh v \<Longrightarrow> holds_at P (effect_init m v) h = holds_at P v h"
  by (simp add: effect_init_def holds_at_def)

lemma effect_init_objs:
  "h < fresh v \<Longrightarrow> objs (effect_init m v) h = objs v h"
  by (simp add: effect_init_def)

lemma effect_init_inv: "view_inv v \<Longrightarrow> view_inv (effect_init m v)"
  unfolding view_inv_def
  using effect_init_fresh [of v m]
  by (auto simp: effect_init_wf effect_init_handles effect_init_holds)

subsection \<open>The marker\<close>

lemma setLatLng_marker:
  "objs v h = Some (Marker c ic) \<Longrightarrow> setLatLng h c' v = v\<lparr>objs := (objs v)(h \<mapsto> Marker c' ic)\<rparr>"
  by (simp add: setLatLng_def)

lemma marker_at:
  "holds_at is_marker v h \<Longrightarrow> \<exists>c ic. objs v h = Some (Marker c ic)"
  by (auto simp: holds_at_def is_marker_def split: option.splits layer.splits)

lemma holds_at_move:
  assumes "objs v h = Some (Marker c ic)"
    and "P (Marker c' ic) = P (Marker c ic)"
  shows "holds_at P (v\<lparr>objs := (objs v)(h \<mapsto> Marker c' ic)\<rparr>) = holds_at P v"
  using assms by (auto simp: holds_at_def fun_eq_iff)

lemma kind_move [simp]:
  "is_marker (Marker c' ic) = is_marker (Marker c ic)"
  "is_polyline (Marker c' ic) = is_polyline (Marker c ic)"
  "is_circle (Marker c' ic) = is_circle (Marker c ic)"
  by (simp_all add: is_marker_def is_polyline_def is_circle_def)

lemma handles_of_move:
  assumes "objs v h = Some (Marker c ic)"
    and "P (Marker c' ic) = P (Marker c ic)"
  shows "handles_of P (v\<lparr>objs := (objs v)(h \<mapsto> Marker c' ic)\<rparr>) = handles_of P v"
  using holds_at_move [OF assms] by (simp add: handles_of_def)

lemma shown_move_other:
  assumes "objs v h = Some (Marker c ic)"
    and "P (Marker c' ic) = P (Marker c ic)" and "\<not> P (Marker c ic)"
  shows "shown P (v\<lparr>objs := (objs v)(h \<mapsto> Marker c' ic)\<rparr>) = shown P v"
proof -
  have "h \<notin> set (handles_of P v)"
    using handles_of_holds [of h P v] assms(1,3) by (auto simp: holds_at_def)
  then have "map ((objs v)(h \<mapsto> Marker c' ic)) (handles_of P v) = map (objs v) (handles_of P v)"
    by (intro map_cong) auto
  then show ?thesis
    by (simp add: shown_def handles_of_move [OF assms(1,2)])
qed

lemma not_marker_kinds [simp]:
  "\<not> is_polyline (Marker c ic)" "\<not> is_circle (Marker c ic)" "is_marker (Marker c ic)"
  "\<not> is_marker (Polyline ps col d)" "\<not> is_circle (Polyline ps col d)" "is_polyline (Polyline ps col d)"
  "\<not> is_marker (Circle c r col)" "\<not> is_polyline (Circle c r col)" "is_circle (Circle c r col)"
  by (simp_all add: is_marker_def is_polyline_def is_circle_def)

lemma wf_map_objs [simp]: "wf_map (v\<lparr>objs := f\<rparr>) = wf_map v"
  by (simp add: wf_map_def)

lemma wf_map_refs [simp]:
  "wf_map (v\<lparr>userMarkerRef := a\<rparr>) = wf_map v"
  "wf_map (v\<lparr>routeLayerRef := b\<rparr>) = wf_map v"
  "wf_map (v\<lparr>threatLayersRef := c\<rparr>) = wf_map v"
  by (simp_all add: wf_map_def)

lemma handles_of_refs [simp]:
  "handles_of P (v\<lparr>userMarkerRef := a\<rparr>) = handles_of P v"
  "handles_of P (v\<lparr>routeLayerRef := b\<rparr>) = handles_of P v"
  "handles_of P (v\<lparr>threatLayersRef := c\<rparr>) = handles_of P v"
  by (rule handles_of_same; simp)+

lemma shown_refs [simp]:
  "shown P (v\<lparr>userMarkerRef := a\<rparr>) = shown P v"
  "shown P (v\<lparr>routeLayerRef := b\<rparr>) = shown P v"
  "shown P (v\<lparr>threatLayersRef := c\<rparr>) = shown P v"
  by (rule shown_same; simp)+

lemma holds_at_refs [simp]:
  "holds_at P (v\<lparr>userMarkerRef := a\<rparr>) = holds_at P v"
  "holds_at P (v\<lparr>routeLayerRef := b\<rparr>) = holds_at P v"
  "holds_at P (v\<lparr>threatLayersRef := c\<rparr>) = holds_at P v"
  by (rule holds_at_objs; simp)+

text \<open>A marker that exists is moved in place: same handle, same icon, new position.\<close>

lemma effect_marker_existing:
  assumes "view_inv v" and "leafletMap v" and "userMarkerRef v = Some h"
  shows "\<exists>c ic. objs v h = Some (Marker c ic) \<and>
           effect_marker p v = v\<lparr>objs := (objs v)(h \<mapsto> Marker (center p) ic)\<rparr>"
proof -
  have "handles_of is_marker v = [h]"
    using assms(1,3) by (simp add: view_inv_def)
  then have "holds_at is_marker v h"
    using handles_of_holds [of h is_marker v] by simp
  then obtain c ic where "objs v h = Some (Marker c ic)"
    using marker_at by blast
  then show ?thesis
    using assms(2,3) by (simp add: effect_marker_def setLatLng_marker)
qed

lemma effect_marker_new:
  assumes "leafletMap v" and "userMarkerRef v = None"
  shows "effect_marker p v =
     (snd (addTo (Marker (center p) (UserIcon (isDistress p))) v))\<lparr>userMarkerRef := Some (fresh v)\<rparr>"
  using assms by (simp add: effect_marker_def case_prod_beta)

lemma effect_marker_refs [simp]:
  "routeLayerRef (effect_marker p v) = routeLayerRef v"
  "threatLayersRef (effect_marker p v) = threatLayersRef v"
  "leafletMap (effect_marker p v) = leafletMap v"
  by (auto simp: effect_marker_def setLatLng_def case_prod_beta
      split: option.splits layer.splits)

lemma effect_marker_fresh: "fresh v \<le> fresh (effect_marker p v)"
  by (auto simp: effect_marker_def setLatLng_def case_prod_beta split: option.splits layer.splits)

lemma effect_marker_on_map:
  "set (on_map (effect_marker p v)) \<subseteq> set (on_map v) \<union> {h. fresh v \<le> h}"
  by (auto simp: effect_marker_def setLatLng_def case_prod_beta split: option.splits layer.splits)

lemma effect_marker_inv:
  assumes "view_inv v" and "leafletMap v"
  shows "view_inv (effect_marker p v)"
proof (cases "userMarkerRef v")
  case None
  have wf: "wf_map v" using assms(1) by (simp add: view_inv_def)
  show ?thesis
    using assms(1) None wf
    unfolding effect_marker_new [OF assms(2) None] view_inv_def
    by (auto simp: handles_of_addTo wf_map_addTo holds_at_addTo_old)
next
  case (Some h)
  from effect_marker_existing [OF assms Some] obtain c ic where
    o: "objs v h = Some (Marker c ic)"
    and e: "effect_marker p v = v\<lparr>objs := (objs v)(h \<mapsto> Marker (center p) ic)\<rparr>"
    by blast
  show ?thesis
    using assms(1) unfolding e view_inv_def
    by (simp add: handles_of_move [OF o] holds_at_move [OF o])
qed

lemma effect_marker_others:
  assumes "view_inv v" and "leafletMap v" and "P = is_polyline \<or> P = is_circle"
  shows "shown P (effect_marker p v) = shown P v"
proof (cases "userMarkerRef v")
  case None
  have wf: "wf_map v" using assms(1) by (simp add: view_inv_def)
  show ?thesis
    using assms(3) unfolding effect_marker_new [OF assms(2) None]
    by (auto simp: shown_addTo [OF wf])
next
  case (Some h)
  from effect_marker_existing [OF assms(1,2) Some] obtain c ic where
    o: "objs v h = Some (Marker c ic)"
    and e: "effect_marker p v = v\<lparr>objs := (objs v)(h \<mapsto> Marker (center p) ic)\<rparr>"
    by blast
  show ?thesis
    using assms(3) unfolding e by (auto simp: shown_move_other [OF o])
qed

lemma effect_marker_shown_new:
  assumes "view_inv v" and "leafletMap v" and "userMarkerRef v = None"
  shows "shown is_marker (effect_marker p v) = [Some (Marker (center p) (UserIcon (isDistress p)))]"
    and "userMarkerRef (effect_marker p v) = Some (fresh v)"
proof -
  have wf: "wf_map v" using assms(1) by (simp add: view_inv_def)
  have "handles_of is_marker v = []"
    using assms(1,3) by (simp add: view_inv_def)
  then have "shown is_marker v = []" by (simp add: shown_def)
  then show "shown is_marker (effect_marker p v) = [Some (Marker (center p) (UserIcon (isDistress p)))]"
    unfolding effect_marker_new [OF assms(2,3)] by (simp add: shown_addTo [OF wf])
  show "userMarkerRef (effect_marker p v) = Some (fresh v)"
    unfolding effect_marker_new [OF assms(2,3)] by simp
qed

lemma effect_marker_shown_existing:
  assumes "view_inv v" and "leafletMap v" and "userMarkerRef v = Some h"
    and "objs v h = Some (Marker c ic)"
  shows "shown is_marker (effect_marker p v) = [Some (Marker (center p) ic)]"
    and "userMarkerRef (effect_marker p v) = Some h"
    and "on_map (effect_marker p v) = on_map v"
proof -
  from effect_marker_existing [OF assms(1,2,3)] assms(4)
  have e: "effect_marker p v = v\<lparr>objs := (objs v)(h \<mapsto> Marker (center p) ic)\<rparr>"
    by auto
  have m: "handles_of is_marker v = [h]"
    using assms(1,3) by (simp add: view_inv_def)
  show "shown is_marker (effect_marker p v) = [Some (Marker (center p) ic)]"
    unfolding e by (simp add: shown_def handles_of_move [OF assms(4)] m)
  show "userMarkerRef (effect_marker p v) = Some h"
    unfolding e using assms(3) by simp
  show "on_map (effect_marker p v) = on_map v"
    unfolding e by simp
qed

subsection \<open>The route line\<close>

lemma drop_route_fields [simp]:
  "fresh (drop_route v) = fresh v"
  "objs (drop_route v) = objs v"
  "leafletMap (drop_route v) = leafletMap v"
  "userMarkerRef (drop_route v) = userMarkerRef v"
  "routeLayerRef (drop_route v) = routeLayerRef v"
  "threatLayersRef (drop_route v) = threatLayersRef v"
  by (simp_all add: drop_route_def split: option.splits)

lemma drop_route_on_map: "set (on_map (drop_route v)) \<subseteq> set (on_map v)"
  by (auto simp: drop_route_def split: option.splits)

lemma drop_route_gone: "routeLayerRef v = Some h \<Longrightarrow> h \<notin> set (on_map (drop_route v))"
  by (simp add: drop_route_def)

lemma drop_route_wf: "wf_map v \<Longrightarrow> wf_map (drop_route v)"
  by (simp add: drop_route_def wf_map_removeLayer split: option.splits)

lemma drop_route_holds [simp]: "holds_at P (drop_route v) = holds_at P v"
  by (rule holds_at_objs) simp

lemma drop_route_lines:
  assumes "view_inv v"
  shows "handles_of is_polyline (drop_route v) = []"
proof (cases "routeLayerRef v")
  case None
  with assms show ?thesis by (simp add: drop_route_def view_inv_def)
next
  case (Some h)
  with assms have "set (handles_of is_polyline v) \<subseteq> {h}"
    by (simp add: view_inv_def)
  then have "removeAll h (handles_of is_polyline v) = []"
    by (metis Diff_eq_empty_iff set_empty set_removeAll)
  with Some show ?thesis
    by (simp add: drop_route_def handles_of_removeLayer)
qed

lemma drop_route_others:
  assumes "view_inv v" and "P = is_marker \<or> P = is_circle"
  shows "handles_of P (drop_route v) = handles_of P v"
    and "shown P (drop_route v) = shown P v"
proof -
  show h: "handles_of P (drop_route v) = handles_of P v"
  proof (cases "routeLayerRef v")
    case None
    then show ?thesis by (simp add: drop_route_def)
  next
    case (Some h)
    with assms(1) have "holds_at is_polyline v h"
      by (simp add: view_inv_def)
    then have "\<not> holds_at P v h"
      using assms(2) kinds_disjoint(1,2) by blast
    with Some show ?thesis
      by (simp add: drop_route_def handles_of_removeLayer_other)
  qed
  show "shown P (drop_route v) = shown P v"
    by (simp add: shown_def h)
qed

lemma effect_route_eq:
  "leafletMap v \<Longrightarrow> effect_route p v =
     (if route_points p = [] then drop_route v
      else (snd (addTo (Polyline (route_points p) (if isDistress p then ''#ef4444'' else ''#ff007f'')
                  (if isDistress p then ''1, 10'' else [])) (drop_route v)))
             \<lparr>routeLayerRef := Some (fresh v)\<rparr>)"
  by (simp add: effect_route_def drop_route_def Let_def case_prod_beta split: option.splits)

lemma effect_route_refs [simp]:
  "userMarkerRef (effect_route p v) = userMarkerRef v"
  "threatLayersRef (effect_route p v) = threatLayersRef v"
  "leafletMap (effect_route p v) = leafletMap v"
proof -
  have "userMarkerRef (effect_route p v) = userMarkerRef v \<and>
      threatLayersRef (effect_route p v) = threatLayersRef v \<and>
      leafletMap (effect_route p v) = leafletMap v"
  proof (cases "leafletMap v")
    case True
    then show ?thesis by (simp add: effect_route_eq)
  next
    case False
    then show ?thesis by (simp add: effect_route_def)
  qed
  then show "userMarkerRef (effect_route p v) = userMarkerRef v"
    and "threatLayersRef (effect_route p v) = threatLayersRef v"
    and "leafletMap (effect_route p v) = leafletMap v"
    by simp_all
qed

lemma effect_route_fresh: "fresh v \<le> fresh (effect_route p v)"
proof (cases "leafletMap v")
  case True
  then show ?thesis by (simp add: effect_route_eq)
next
  case False
  then show ?thesis by (simp add: effect_route_def)
qed

lemma effect_route_on_map:
  "set (on_map (effect_route p v)) \<subseteq> set (on_map v) \<union> {h. fresh v \<le> h}"
proof (cases "leafletMap v")
  case True
  then show ?thesis
    using drop_route_on_map [of v] by (auto simp: effect_route_eq)
next
  case False
  then show ?thesis by (simp add: effect_route_def)
qed

lemma effect_route_gone:
  assumes "view_inv v" and "leafletMap v" and "routeLayerRef v = Some h"
  shows "h \<notin> set (on_map (effect_route p v))"
proof -
  have "h < fresh v" using assms(1,3) by (simp add: view_inv_def)
  then show ?thesis
    using drop_route_gone [OF assms(3)] by (simp add: effect_route_eq [OF assms(2)])
qed

lemma effect_route_inv:
  assumes "view_inv v" and "leafletMap v"
  shows "view_inv (effect_route p v)"
proof -
  have wf: "wf_map (drop_route v)"
    using assms(1) by (simp add: view_inv_def drop_route_wf)
  have r: "\<forall>h \<in> set_option (routeLayerRef v). h < fresh v \<and> holds_at is_polyline v h"
    using assms(1) by (simp add: view_inv_def)
  have m: "handles_of is_marker (drop_route v) = (case userMarkerRef v of None \<Rightarrow> [] | Some h \<Rightarrow> [h])"
    using assms(1) drop_route_others(1) [OF assms(1), of is_marker] by (simp add: view_inv_def)
  have c: "handles_of is_circle (drop_route v) = threatLayersRef v"
    using assms(1) drop_route_others(1) [OF assms(1), of is_circle] by (simp add: view_inv_def)
  show ?thesis
  proof (cases "route_points p = []")
    case True
    then show ?thesis
      using wf r m c drop_route_lines [OF assms(1)]
      by (simp add: effect_route_eq [OF assms(2)] view_inv_def)
  next
    case False
    then show ?thesis
      using wf r m c drop_route_lines [OF assms(1)]
      by (simp add: effect_route_eq [OF assms(2)] view_inv_def handles_of_addTo [OF wf]
          wf_map_addTo holds_at_def)
  qed
qed

lemma effect_route_shown:
  assumes "view_inv v" and "leafletMap v"
  shows "shown is_polyline (effect_route p v) =
     (if route_points p = [] then []
      else [Some (Polyline (route_points p) (if isDistress p then ''#ef4444'' else ''#ff007f'')
                    (if isDistress p then ''1, 10'' else []))])"
proof -
  have wf: "wf_map (drop_route v)"
    using assms(1) by (simp add: view_inv_def drop_route_wf)
  have "shown is_polyline (drop_route v) = []"
    using drop_route_lines [OF assms(1)] by (simp add: shown_def)
  then show ?thesis
    by (simp add: effect_route_eq [OF assms(2)] shown_addTo [OF wf])
qed

lemma effect_route_others:
  assumes "view_inv v" and "leafletMap v" and "P = is_marker \<or> P = is_circle"
  shows "shown P (effect_route p v) = shown P v"
proof -
  have wf: "wf_map (drop_route v)"
    using assms(1) by (simp add: view_inv_def drop_route_wf)
  show ?thesis
    using drop_route_others(2) [OF assms(1,3)] assms(3)
    by (auto simp: effect_route_eq [OF assms(2)] shown_addTo [OF wf])
qed

subsection \<open>The hotspot overlays\<close>

lemma remove_all_on_map:
  "on_map (foldl (\<lambda>w layer. removeLayer layer w) v hs) = filter (\<lambda>h. h \<notin> set hs) (on_map v)"
proof (induction hs arbitrary: v)
  case Nil
  show ?case by simp
next
  case (Cons a hs)
  have "filter (\<lambda>h. h \<notin> set hs) (removeAll a xs) =
      filter (\<lambda>h. h \<notin> set (a # hs)) xs" for xs :: "nat list"
    by (induction xs) auto
  then show ?case by (simp add: Cons.IH)
qed

lemma remove_all_fields:
  "objs (foldl (\<lambda>w layer. removeLayer layer w) v hs) = objs v"
  "fresh (foldl (\<lambda>w layer. removeLayer layer w) v hs) = fresh v"
  "leafletMap (foldl (\<lambda>w layer. removeLayer layer w) v hs) = leafletMap v"
  "userMarkerRef (foldl (\<lambda>w layer. removeLayer layer w) v hs) = userMarkerRef v"
  "routeLayerRef (foldl (\<lambda>w layer. removeLayer layer w) v hs) = routeLayerRef v"
  by (induction hs arbitrary: v; simp)+

lemma remove_threats_fields [simp]:
  "on_map (remove_threats v) = filter (\<lambda>h. h \<notin> set (threatLayersRef v)) (on_map v)"
  "objs (remove_threats v) = objs v"
  "fresh (remove_threats v) = fresh v"
  "leafletMap (remove_threats v) = leafletMap v"
  "userMarkerRef (remove_threats v) = userMarkerRef v"
  "routeLayerRef (remove_threats v) = routeLayerRef v"
  "threatLayersRef (remove_threats v) = []"
  by (simp_all add: remove_threats_def remove_all_fields remove_all_on_map)

lemma remove_threats_holds [simp]: "holds_at P (remove_threats v) = holds_at P v"
  by (rule holds_at_objs) simp

lemma remove_threats_handles:
  "handles_of P (remove_threats v) = filter (\<lambda>h. h \<notin> set (threatLayersRef v)) (handles_of P v)"
  by (simp add: handles_of_def conj_commute)

lemma remove_threats_wf: "wf_map v \<Longrightarrow> wf_map (remove_threats v)"
  by (simp add: wf_map_def)

lemma remove_threats_circles:
  assumes "view_inv v"
  shows "handles_of is_circle (remove_threats v) = []"
  using assms by (simp add: remove_threats_handles view_inv_def)

lemma remove_threats_others:
  assumes "view_inv v" and "P = is_marker \<or> P = is_polyline"
  shows "handles_of P (remove_threats v) = handles_of P v"
    and "shown P (remove_threats v) = shown P v"
proof -
  have "h \<notin> set (threatLayersRef v)" if "h \<in> set (handles_of P v)" for h
  proof
    assume "h \<in> set (threatLayersRef v)"
    then have "h \<in> set (handles_of is_circle v)"
      using assms(1) by (simp add: view_inv_def)
    then have "holds_at is_circle v h" by (rule handles_of_holds)
    moreover have "holds_at P v h" using that by (rule handles_of_holds)
    ultimately show False
      using assms(2) kinds_disjoint(3,4) by blast
  qed
  then show h: "handles_of P (remove_threats v) = handles_of P v"
    by (simp add: remove_threats_handles)
  show "shown P (remove_threats v) = shown P v"
    by (simp add: shown_def h)
qed

lemma remove_threats_inv:
  assumes "view_inv v"
  shows "view_inv (remove_threats v)"
  using assms remove_threats_circles [OF assms] remove_threats_others(1) [OF assms]
  by (simp add: view_inv_def remove_threats_wf)

lemma add_zone_eq: "add_zone = add_circle zone_color"
  by (rule ext)+ (simp add: add_zone_def add_circle_def zone_circle_def case_prod_beta)

lemma add_overlay_eq: "add_overlay = add_circle overlay_color"
  by (rule ext)+ (simp add: add_overlay_def add_circle_def zone_circle_def case_prod_beta)

lemma add_circle_fields [simp]:
  "on_map (add_circle col v z) = on_map v @ [fresh v]"
  "fresh (add_circle col v z) = Suc (fresh v)"
  "leafletMap (add_circle col v z) = leafletMap v"
  "userMarkerRef (add_circle col v z) = userMarkerRef v"
  "routeLayerRef (add_circle col v z) = routeLayerRef v"
  "threatLayersRef (add_circle col v z) = threatLayersRef v @ [fresh v]"
  by (simp_all add: add_circle_def)

lemma is_circle_zone [simp]:
  "is_circle (zone_circle col z)" "\<not> is_marker (zone_circle col z)" "\<not> is_polyline (zone_circle col z)"
  by (simp_all add: zone_circle_def)

lemma add_circle_inv: "view_inv v \<Longrightarrow> view_inv (add_circle col v z)"
  unfolding view_inv_def add_circle_def
  by (auto simp: handles_of_addTo wf_map_addTo holds_at_addTo_old)

lemma add_circle_shown:
  assumes "wf_map v"
  shows "shown P (add_circle col v z) = shown P v @ (if P (zone_circle col z) then [Some (zone_circle col z)] else [])"
  unfolding add_circle_def by (simp add: shown_addTo [OF assms])

lemma add_circles_fields [simp]:
  "leafletMap (foldl (add_circle col) v zs) = leafletMap v"
  "userMarkerRef (foldl (add_circle col) v zs) = userMarkerRef v"
  "routeLayerRef (foldl (add_circle col) v zs) = routeLayerRef v"
  by (induction zs arbitrary: v; simp)+

lemma add_circles_fresh: "fresh v \<le> fresh (foldl (add_circle col) v zs)"
proof (induction zs arbitrary: v)
  case Nil
  show ?case by simp
next
  case (Cons z zs)
  from Cons [of "add_circle col v z"] show ?case by simp
qed

lemma add_circles_on_map:
  "set (on_map (foldl (add_circle col) v zs)) \<subseteq> set (on_map v) \<union> {h. fresh v \<le> h}"
proof (induction zs arbitrary: v)
  case Nil
  show ?case by simp
next
  case (Cons z zs)
  from Cons [of "add_circle col v z"] show ?case by auto
qed

lemma add_circles_inv: "view_inv v \<Longrightarrow> view_inv (foldl (add_circle col) v zs)"
  by (induction zs arbitrary: v) (simp_all add: add_circle_inv)

lemma add_circles_shown:
  "view_inv v \<Longrightarrow> shown is_circle (foldl (add_circle col) v zs) =
     shown is_circle v @ map (\<lambda>z. Some (zone_circle col z)) zs"
proof (induction zs arbitrary: v)
  case Nil
  show ?case by simp
next
  case (Cons z zs)
  have wf: "wf_map v" using Cons.prems by (simp add: view_inv_def)
  have "view_inv (add_circle col v z)"
    using Cons.prems by (rule add_circle_inv)
  from Cons.IH [OF this]
  show ?case by (simp add: add_circle_shown [OF wf])
qed

lemma add_circles_others:
  "view_inv v \<Longrightarrow> P = is_marker \<or> P = is_polyline \<Longrightarrow>
     shown P (foldl (add_circle col) v zs) = shown P v"
proof (induction zs arbitrary: v)
  case Nil
  show ?case by simp
next
  case (Cons z zs)
  have wf: "wf_map v" using Cons.prems by (simp add: view_inv_def)
  have "view_inv (add_circle col v z)"
    using Cons.prems(1) by (rule add_circle_inv)
  from Cons.IH [OF this Cons.prems(2)] Cons.prems(2)
  show ?case by (auto simp: add_circle_shown [OF wf])
qed

lemma effect_threats_eq:
  "leafletMap v \<Longrightarrow> effect_threats p v =
     (if showThreats p then foldl (add_circle zone_color) (remove_threats v) (threatZones p)
      else remove_threats v)"
  by (simp add: effect_threats_def add_zone_eq Let_def)

lemma effect_threats_refs [simp]:
  "userMarkerRef (effect_threats p v) = userMarkerRef v"
  "routeLayerRef (effect_threats p v) = routeLayerRef v"
  "leafletMap (effect_threats p v) = leafletMap v"
  by (simp_all add: effect_threats_def add_zone_eq Let_def)

lemma effect_threats_fresh: "fresh v \<le> fresh (effect_threats p v)"
  using add_circles_fresh [of "remove_threats v" zone_color "threatZones p"]
  by (simp add: effect_threats_def add_zone_eq Let_def)

lemma effect_threats_gone:
  assumes "view_inv v" and "leafletMap v" and "h \<in> set (threatLayersRef v)"
  shows "h \<notin> set (on_map (effect_threats p v))"
proof -
  have "h \<in> set (handles_of is_circle v)"
    using assms(1,3) by (simp add: view_inv_def)
  then have "h \<in> set (on_map v)"
    using handles_of_subset by blast
  then have less: "h < fresh v"
    using assms(1) by (simp add: view_inv_def wf_map_def)
  have out: "h \<notin> set (on_map (remove_threats v))"
    using assms(3) by simp
  show ?thesis
    using out less add_circles_on_map [of zone_color "remove_threats v" "threatZones p"]
    by (auto simp: effect_threats_eq [OF assms(2)])
qed

lemma effect_threats_on_map:
  "set (on_map (effect_threats p v)) \<subseteq> set (on_map v) \<union> {h. fresh v \<le> h}"
  using add_circles_on_map [of zone_color "remove_threats v" "threatZones p"]
  by (auto simp: effect_threats_def add_zone_eq Let_def)

lemma effect_threats_inv:
  assumes "view_inv v" and "leafletMap v"
  shows "view_inv (effect_threats p v)"
  by (simp add: effect_threats_eq [OF assms(2)] add_circles_inv remove_threats_inv [OF assms(1)])

lemma effect_threats_shown:
  assumes "view_inv v" and "leafletMap v"
  shows "shown is_circle (effect_threats p v) =
     (if showThreats p then map (\<lambda>z. Some (zone_circle zone_color z)) (threatZones p) else [])"
proof -
  have "shown is_circle (remove_threats v) = []"
    using remove_threats_circles [OF assms(1)] by (simp add: shown_def)
  then show ?thesis
    by (simp add: effect_threats_eq [OF assms(2)] add_circles_shown remove_threats_inv [OF assms(1)])
qed

lemma effect_threats_others:
  assumes "view_inv v" and "leafletMap v" and "P = is_marker \<or> P = is_polyline"
  shows "shown P (effect_threats p v) = shown P v"
  using remove_threats_others(2) [OF assms(1,3)]
  by (simp add: effect_threats_eq [OF assms(2)] add_circles_others [OF remove_threats_inv [OF assms(1)] assms(3)])

subsection \<open>The whole effect of the component\<close>

lemma MapComponent_effect_eq:
  "MapComponent_effect True m p v =
     effect_threats p (effect_route p (effect_marker p (effect_init m v)))"
  by (simp add: MapComponent_effect_def)

lemma MapComponent_effect_absent: "MapComponent_effect False m p v = v"
  by (simp add: MapComponent_effect_def)

lemma MapComponent_effect_inv:
  assumes "view_inv v" and "leafletMap v \<or> m"
  shows "view_inv (MapComponent_effect True m p v)"
    and "leafletMap (MapComponent_effect True m p v)"
proof -
  have i0: "view_inv (effect_init m v)" using assms(1) by (rule effect_init_inv)
  have l0: "leafletMap (effect_init m v)" using assms(2) by simp
  have i1: "view_inv (effect_marker p (effect_init m v))"
    using i0 l0 by (rule effect_marker_inv)
  have i2: "view_inv (effect_route p (effect_marker p (effect_init m v)))"
    using i1 l0 by (simp add: effect_route_inv)
  show "view_inv (MapComponent_effect True m p v)"
    unfolding MapComponent_effect_eq using i2 l0 by (simp add: effect_threats_inv)
  show "leafletMap (MapComponent_effect True m p v)"
    unfolding MapComponent_effect_eq using l0 by simp
qed

lemma MapComponent_effect_lines:
  assumes "view_inv v" and "leafletMap v \<or> m"
  shows "shown is_polyline (MapComponent_effect True m p v) =
     (if route_points p = [] then [] else [Some (route_line p (route_points p))])"
proof -
  have i0: "view_inv (effect_init m v)" using assms(1) by (rule effect_init_inv)
  have l0: "leafletMap (effect_init m v)" using assms(2) by simp
  have i1: "view_inv (effect_marker p (effect_init m v))"
    using i0 l0 by (rule effect_marker_inv)
  have i2: "view_inv (effect_route p (effect_marker p (effect_init m v)))"
    using i1 l0 by (simp add: effect_route_inv)
  have "shown is_polyline (MapComponent_effect True m p v) =
      shown is_polyline (effect_route p (effect_marker p (effect_init m v)))"
    unfolding MapComponent_effect_eq using i2 l0 by (simp add: effect_threats_others)
  also have "\<dots> = (if route_points p = [] then [] else [Some (route_line p (route_points p))])"
    using i1 l0 by (simp add: effect_route_shown route_line_def)
  finally show ?thesis .
qed

lemma MapComponent_effect_circles:
  assumes "view_inv v" and "leafletMap v \<or> m"
  shows "shown is_circle (MapComponent_effect True m p v) =
     (if showThreats p then map (\<lambda>z. Some (zone_circle zone_color z)) (threatZones p) else [])"
proof -
  have i0: "view_inv (effect_init m v)" using assms(1) by (rule effect_init_inv)
  have l0: "leafletMap (effect_init m v)" using assms(2) by simp
  have i1: "view_inv (effect_marker p (effect_init m v))"
    using i0 l0 by (rule effect_marker_inv)
  have i2: "view_inv (effect_route p (effect_marker p (effect_init m v)))"
    using i1 l0 by (simp add: effect_route_inv)
  show ?thesis
    unfolding MapComponent_effect_eq using i2 l0 by (simp add: effect_threats_shown)
qed

lemma MapComponent_effect_route_gone:
  assumes "view_inv v" and "leafletMap v \<or> m" and "routeLayerRef v = Some h"
  shows "h \<notin> set (on_map (MapComponent_effect True m p v))"
proof -
  let ?v1 = "effect_marker p (effect_init m v)"
  have i0: "view_inv (effect_init m v)" using assms(1) by (rule effect_init_inv)
  have l0: "leafletMap (effect_init m v)" using assms(2) by simp
  have i1: "view_inv ?v1" using i0 l0 by (rule effect_marker_inv)
  have r1: "routeLayerRef ?v1 = Some h" using assms(3) by simp
  have less: "h < fresh ?v1" using i1 r1 by (simp add: view_inv_def)
  have l1: "leafletMap ?v1" using l0 by simp
  have "h \<notin> set (on_map (effect_route p ?v1))"
    using i1 l1 r1 by (rule effect_route_gone)
  moreover have "fresh ?v1 \<le> fresh (effect_route p ?v1)" by (rule effect_route_fresh)
  ultimately show ?thesis
    unfolding MapComponent_effect_eq
    using less effect_threats_on_map [of p "effect_route p ?v1"] by auto
qed

lemma MapComponent_effect_threats_gone:
  assumes "view_inv v" and "leafletMap v \<or> m" and "h \<in> set (threatLayersRef v)"
  shows "h \<notin> set (on_map (MapComponent_effect True m p v))"
proof -
  let ?v2 = "effect_route p (effect_marker p (effect_init m v))"
  have i0: "view_inv (effect_init m v)" using assms(1) by (rule effect_init_inv)
  have l0: "leafletMap (effect_init m v)" using assms(2) by simp
  have i1: "view_inv (effect_marker p (effect_init m v))"
    using i0 l0 by (rule effect_marker_inv)
  have i2: "view_inv ?v2" using i1 l0 by (simp add: effect_route_inv)
  have l2: "leafletMap ?v2" using l0 by simp
  have "h \<in> set (threatLayersRef ?v2)" using assms(3) by simp
  with i2 l2 show ?thesis
    unfolding MapComponent_effect_eq by (rule effect_threats_gone)
qed

lemma MapComponent_effect_marker_new:
  assumes "view_inv v" and "leafletMap v \<or> m" and "userMarkerRef v = None"
  shows "shown is_marker (MapComponent_effect True m p v) =
     [Some (Marker (center p) (UserIcon (isDistress p)))]"
proof -
  let ?v1 = "effect_marker p (effect_init m v)"
  have i0: "view_inv (effect_init m v)" using assms(1) by (rule effect_init_inv)
  have l0: "leafletMap (effect_init m v)" using assms(2) by simp
  have i1: "view_inv ?v1" using i0 l0 by (rule effect_marker_inv)
  have i2: "view_inv (effect_route p ?v1)" using i1 l0 by (simp add: effect_route_inv)
  have "shown is_marker (MapComponent_effect True m p v) = shown is_marker (effect_route p ?v1)"
    unfolding MapComponent_effect_eq using i2 l0 by (simp add: effect_threats_others)
  also have "\<dots> = shown is_marker ?v1"
    using i1 l0 by (simp add: effect_route_others)
  also have "\<dots> = [Some (Marker (center p) (UserIcon (isDistress p)))]"
    using i0 l0 assms(3) by (simp add: effect_marker_shown_new)
  finally show ?thesis .
qed

lemma MapComponent_effect_marker_existing:
  assumes "view_inv v" and "leafletMap v \<or> m" and "userMarkerRef v = Some h"
    and "objs v h = Some (Marker c ic)"
  shows "shown is_marker (MapComponent_effect True m p v) = [Some (Marker (center p) ic)]"
    and "userMarkerRef (MapComponent_effect True m p v) = Some h"
    and "h \<in> set (on_map (MapComponent_effect True m p v))"
proof -
  let ?v0 = "effect_init m v"
  let ?v1 = "effect_marker p ?v0"
  have i0: "view_inv ?v0" using assms(1) by (rule effect_init_inv)
  have l0: "leafletMap ?v0" using assms(2) by simp
  have i1: "view_inv ?v1" using i0 l0 by (rule effect_marker_inv)
  have i2: "view_inv (effect_route p ?v1)" using i1 l0 by (simp add: effect_route_inv)
  have "handles_of is_marker v = [h]"
    using assms(1,3) by (simp add: view_inv_def)
  then have "h \<in> set (on_map v)"
    using handles_of_subset [of is_marker v] by auto
  then have "h < fresh v"
    using assms(1) by (simp add: view_inv_def wf_map_def)
  then have o0: "objs ?v0 h = Some (Marker c ic)"
    using assms(4) by (simp add: effect_init_objs)
  have u0: "userMarkerRef ?v0 = Some h" using assms(3) by simp
  have "shown is_marker (MapComponent_effect True m p v) = shown is_marker (effect_route p ?v1)"
    unfolding MapComponent_effect_eq using i2 l0 by (simp add: effect_threats_others)
  also have "\<dots> = shown is_marker ?v1"
    using i1 l0 by (simp add: effect_route_others)
  also have "\<dots> = [Some (Marker (center p) ic)]"
    using i0 l0 u0 o0 by (rule effect_marker_shown_existing(1))
  finally show "shown is_marker (MapComponent_effect True m p v) = [Some (Marker (center p) ic)]" .
  have "userMarkerRef ?v1 = Some h"
    using i0 l0 u0 o0 by (rule effect_marker_shown_existing(2))
  then show u: "userMarkerRef (MapComponent_effect True m p v) = Some h"
    unfolding MapComponent_effect_eq by simp
  have "handles_of is_marker (MapComponent_effect True m p v) = [h]"
    using MapComponent_effect_inv(1) [OF assms(1,2), of p] u by (simp add: view_inv_def)
  then show "h \<in> set (on_map (MapComponent_effect True m p v))"
    using handles_of_subset [of is_marker "MapComponent_effect True m p v"] by auto
qed

subsection \<open>The route line, the distress flag and the threat toggle\<close>

text \<open>
  Claim C6. When the map exists or can be created, every run of the effect leaves exactly
  this on the map as route line: the line through the supplied route points if there are
  any, else the line through the two points \<open>[center, destination]\<close> if a destination is set,
  else no line. The line of the previous run is no longer on the map. For the location
  (40.7484, -74.0010), the destination (40.7580, -73.9855) and no route points, the line
  drawn has exactly these two points.
\<close>

theorem route_line_recreated:
  assumes "view_inv v" and "leafletMap v \<or> mapRef"
  shows "shown is_polyline (MapComponent_effect True mapRef p v) =
       (if routePoints p \<noteq> [] then [Some (route_line p (routePoints p))]
        else (case destination p of
                Some d \<Rightarrow> [Some (route_line p [center p, d])]
              | None \<Rightarrow> [])) \<and>
     (\<forall>h. routeLayerRef v = Some h \<longrightarrow> h \<notin> set (on_map (MapComponent_effect True mapRef p v))) \<and>
     (center p = (40.7484, -74.0010) \<and> destination p = Some (40.7580, -73.9855) \<and>
      routePoints p = [] \<longrightarrow>
        shown is_polyline (MapComponent_effect True mapRef p v) =
          [Some (route_line p [(40.7484, -74.0010), (40.7580, -73.9855)])])"
proof -
  have a: "shown is_polyline (MapComponent_effect True mapRef p v) =
       (if routePoints p \<noteq> [] then [Some (route_line p (routePoints p))]
        else (case destination p of
                Some d \<Rightarrow> [Some (route_line p [center p, d])]
              | None \<Rightarrow> []))"
    by (simp add: MapComponent_effect_lines [OF assms] route_points_def split: option.splits)
  have b: "\<forall>h. routeLayerRef v = Some h \<longrightarrow> h \<notin> set (on_map (MapComponent_effect True mapRef p v))"
    using MapComponent_effect_route_gone [OF assms] by blast
  from a b show ?thesis by simp
qed

lemma first_render:
  "on_map (MapComponent_effect True True scenario_A view0) = [0, 1, 2]"
  "objs (MapComponent_effect True True scenario_A view0) 2 =
     Some (Polyline [(40.7484, -74.0010), (40.7580, -73.9855)] ''#ff007f'' [])"
  "objs (MapComponent_effect True True scenario_A view0) 1 =
     Some (Marker (40.7484, -74.0010) (UserIcon False))"
  "routeLayerRef (MapComponent_effect True True scenario_A view0) = Some 2"
  "userMarkerRef (MapComponent_effect True True scenario_A view0) = Some 1"
  by (simp_all add: MapComponent_effect_def effect_init_def effect_marker_def effect_route_def
      effect_threats_def remove_threats_def route_points_def scenario_A_def view0_def addTo_def
      removeLayer_def Let_def)

theorem route_line_recreated_witness:
  "view_inv view0 \<and>
   center scenario_A = (40.7484, -74.0010) \<and> destination scenario_A = Some (40.7580, -73.9855) \<and>
   routePoints scenario_A = [] \<and>
   shown is_polyline (MapComponent_effect True True scenario_A view0) =
     [Some (Polyline [(40.7484, -74.0010), (40.7580, -73.9855)] ''#ff007f'' [])] \<and>
   routeLayerRef (MapComponent_effect True True scenario_A view0) = Some 2 \<and>
   2 \<notin> set (on_map (MapComponent_effect True True scenario_A
            (MapComponent_effect True True scenario_A view0)))"
proof -
  have i: "view_inv (MapComponent_effect True True scenario_A view0)"
    by (rule MapComponent_effect_inv(1) [OF view0_inv]) simp
  have l: "leafletMap (MapComponent_effect True True scenario_A view0) \<or> True" by simp
  have s: "center scenario_A = (40.7484, -74.0010)"
    "destination scenario_A = Some (40.7580, -73.9855)" "routePoints scenario_A = []"
    "\<not> isDistress scenario_A"
    by (simp_all add: scenario_A_def)
  show ?thesis
    using route_line_recreated [OF view0_inv, of True scenario_A]
      route_line_recreated [OF i l, of scenario_A] view0_inv s first_render(4)
    by (simp add: route_line_def)
qed

lemma first_render_inv: "view_inv (MapComponent_effect True True p view0)"
  by (rule MapComponent_effect_inv(1) [OF view0_inv]) simp

lemma first_render_map: "leafletMap (MapComponent_effect True True p view0) \<or> m"
  using MapComponent_effect_inv(2) [OF view0_inv, of True p] by simp

text \<open>
  Claim C2, evaluated. The marker is created without distress; then the distress flag is set
  and the effect runs again. The route line is redrawn in the distress colour and dash
  pattern through the same points, the marker stays where it is, but its icon is still the
  normal one: the distress icon is given to a marker only when the marker is created.
\<close>

theorem distress_toggle_keeps_marker_icon:
  "shown is_marker (MapComponent_effect True True in_distress
      (MapComponent_effect True True scenario_A view0)) =
     [Some (Marker (40.7484, -74.0010) (UserIcon False))] \<and>
   shown is_marker (MapComponent_effect True True in_distress view0) =
     [Some (Marker (40.7484, -74.0010) (UserIcon True))] \<and>
   shown is_polyline (MapComponent_effect True True scenario_A view0) =
     [Some (Polyline [(40.7484, -74.0010), (40.7580, -73.9855)] ''#ff007f'' [])] \<and>
   shown is_polyline (MapComponent_effect True True in_distress
      (MapComponent_effect True True scenario_A view0)) =
     [Some (Polyline [(40.7484, -74.0010), (40.7580, -73.9855)] ''#ef4444'' ''1, 10'')]"
proof -
  have d: "center in_distress = (40.7484, -74.0010)" "isDistress in_distress"
    "route_points in_distress = [(40.7484, -74.0010), (40.7580, -73.9855)]"
    "route_points scenario_A = [(40.7484, -74.0010), (40.7580, -73.9855)]"
    "\<not> isDistress scenario_A"
    by (simp_all add: in_distress_def scenario_A_def route_points_def)
  have i1: "view_inv (MapComponent_effect True True scenario_A view0)"
    by (rule first_render_inv)
  have l1: "leafletMap (MapComponent_effect True True scenario_A view0) \<or> True"
    by simp
  have a: "shown is_marker (MapComponent_effect True True in_distress
      (MapComponent_effect True True scenario_A view0)) =
     [Some (Marker (40.7484, -74.0010) (UserIcon False))]"
    using MapComponent_effect_marker_existing(1) [OF i1 l1 first_render(5) first_render(3),
        of in_distress] d(1)
    by simp
  have b: "shown is_marker (MapComponent_effect True True in_distress view0) =
     [Some (Marker (40.7484, -74.0010) (UserIcon True))]"
    using MapComponent_effect_marker_new [OF view0_inv, of True in_distress] d(1,2)
    by (simp add: view0_def)
  have c: "shown is_polyline (MapComponent_effect True True scenario_A view0) =
     [Some (Polyline [(40.7484, -74.0010), (40.7580, -73.9855)] ''#ff007f'' [])]"
    using MapComponent_effect_lines [OF view0_inv, of True scenario_A] d(4,5)
    by (simp add: route_line_def)
  have e: "shown is_polyline (MapComponent_effect True True in_distress
      (MapComponent_effect True True scenario_A view0)) =
     [Some (Polyline [(40.7484, -74.0010), (40.7580, -73.9855)] ''#ef4444'' ''1, 10'')]"
    using MapComponent_effect_lines [OF i1 l1, of in_distress] d(2,3)
    by (simp add: route_line_def)
  from a b c e show ?thesis by simp
qed

text \<open>
  Claim C10. When \<open>showThreats\<close> is false, a run of the effect takes every overlay of the
  previous run off the map and creates none, whatever the zones are: no circle is on the map
  and \<open>threatLayersRef\<close> is empty. The number of overlays equals the number of zones when
  \<open>showThreats\<close> is true, and otherwise only if there is no zone.
\<close>

theorem threats_hidden:
  assumes "view_inv v" and "leafletMap v \<or> mapRef"
  shows "(\<not> showThreats p \<longrightarrow>
        (\<forall>h \<in> set (threatLayersRef v). h \<notin> set (on_map (MapComponent_effect True mapRef p v))) \<and>
        shown is_circle (MapComponent_effect True mapRef p v) = [] \<and>
        handles_of is_circle (MapComponent_effect True mapRef p v) = [] \<and>
        threatLayersRef (MapComponent_effect True mapRef p v) = []) \<and>
     (showThreats p \<longrightarrow>
        length (shown is_circle (MapComponent_effect True mapRef p v)) = length (threatZones p)) \<and>
     (length (shown is_circle (MapComponent_effect True mapRef p v)) = length (threatZones p)
        \<longleftrightarrow> showThreats p \<or> threatZones p = [])"
proof -
  let ?E = "MapComponent_effect True mapRef p v"
  have c: "shown is_circle ?E =
     (if showThreats p then map (\<lambda>z. Some (zone_circle zone_color z)) (threatZones p) else [])"
    by (rule MapComponent_effect_circles [OF assms])
  have g: "\<forall>h \<in> set (threatLayersRef v). h \<notin> set (on_map ?E)"
    using MapComponent_effect_threats_gone [OF assms] by blast
  have i: "handles_of is_circle ?E = threatLayersRef ?E"
    using MapComponent_effect_inv(1) [OF assms, of p] by (simp add: view_inv_def)
  have n: "handles_of is_circle ?E = []" if "\<not> showThreats p"
    using c that by (simp add: shown_def)
  show ?thesis
    using c g i n by auto
qed

lemma zones_render:
  "threatLayersRef (MapComponent_effect True True with_zones view0) = [3, 4]"
  "on_map (MapComponent_effect True True with_zones view0) = [0, 1, 2, 3, 4]"
  by (simp_all add: MapComponent_effect_def effect_init_def effect_marker_def effect_route_def
      effect_threats_def remove_threats_def route_points_def scenario_A_def with_zones_def
      view0_def addTo_def add_zone_def removeLayer_def Let_def)

theorem threats_hidden_witness:
  "view_inv (MapComponent_effect True True with_zones view0) \<and>
   \<not> showThreats hidden_zones \<and> length (threatZones hidden_zones) = 2 \<and>
   threatLayersRef (MapComponent_effect True True with_zones view0) = [3, 4] \<and>
   3 \<notin> set (on_map (MapComponent_effect True True hidden_zones
                     (MapComponent_effect True True with_zones view0))) \<and>
   4 \<notin> set (on_map (MapComponent_effect True True hidden_zones
                     (MapComponent_effect True True with_zones view0))) \<and>
   shown is_circle (MapComponent_effect True True hidden_zones
                     (MapComponent_effect True True with_zones view0)) = [] \<and>
   showThreats with_zones \<and>
   length (shown is_circle (MapComponent_effect True True with_zones view0)) = 2"
proof -
  have h: "\<not> showThreats hidden_zones" "length (threatZones hidden_zones) = 2"
    "showThreats with_zones" "length (threatZones with_zones) = 2"
    by (simp_all add: hidden_zones_def with_zones_def scenario_A_def)
  have i1: "view_inv (MapComponent_effect True True with_zones view0)"
    by (rule first_render_inv)
  have l1: "leafletMap (MapComponent_effect True True with_zones view0) \<or> True"
    by simp
  have l0: "leafletMap view0 \<or> True"
    by simp
  show ?thesis
    using threats_hidden [OF i1 l1, of hidden_zones] threats_hidden [OF view0_inv l0, of with_zones]
      i1 h zones_render(1)
    by simp
qed

subsection \<open>The dashboard script's updateMap\<close>

lemma drop_marker_fields [simp]:
  "fresh (drop_marker v) = fresh v"
  "objs (drop_marker v) = objs v"
  "leafletMap (drop_marker v) = leafletMap v"
  "userMarkerRef (drop_marker v) = userMarkerRef v"
  "routeLayerRef (drop_marker v) = routeLayerRef v"
  "threatLayersRef (drop_marker v) = threatLayersRef v"
  by (simp_all add: drop_marker_def split: option.splits)

lemma drop_marker_holds [simp]: "holds_at P (drop_marker v) = holds_at P v"
  by (rule holds_at_objs) simp

lemma drop_marker_wf: "wf_map v \<Longrightarrow> wf_map (drop_marker v)"
  by (simp add: drop_marker_def wf_map_removeLayer split: option.splits)

lemma drop_marker_handles: "set (handles_of P (drop_marker v)) \<subseteq> set (handles_of P v)"
  by (auto simp: drop_marker_def handles_of_removeLayer split: option.splits)

lemma drop_route_handles: "set (handles_of P (drop_route v)) \<subseteq> set (handles_of P v)"
  by (auto simp: drop_route_def handles_of_removeLayer split: option.splits)

lemma drop_marker_on_map: "set (on_map (drop_marker v)) \<subseteq> set (on_map v)"
  by (auto simp: drop_marker_def split: option.splits)

lemma drop_marker_gone: "userMarkerRef v = Some h \<Longrightarrow> h \<notin> set (on_map (drop_marker v))"
  by (simp add: drop_marker_def)

lemma drop_marker_markers:
  assumes "view_inv v"
  shows "handles_of is_marker (drop_marker v) = []"
  using assms
  by (auto simp: drop_marker_def view_inv_def handles_of_removeLayer split: option.splits)

lemma drop_route_lines_weak:
  assumes "set (handles_of is_polyline v) \<subseteq> set_option (routeLayerRef v)"
  shows "handles_of is_polyline (drop_route v) = []"
proof (cases "routeLayerRef v")
  case None
  with assms show ?thesis by (simp add: drop_route_def)
next
  case (Some h)
  with assms have "set (handles_of is_polyline v) \<subseteq> {h}"
    by simp
  then have "removeAll h (handles_of is_polyline v) = []"
    by (metis Diff_eq_empty_iff set_empty set_removeAll)
  with Some show ?thesis
    by (simp add: drop_route_def handles_of_removeLayer)
qed

lemma cleared:
  assumes "view_inv v"
  shows "wf_map (remove_threats (drop_route (drop_marker v)))"
    and "handles_of is_marker (remove_threats (drop_route (drop_marker v))) = []"
    and "handles_of is_polyline (remove_threats (drop_route (drop_marker v))) = []"
    and "handles_of is_circle (remove_threats (drop_route (drop_marker v))) = []"
proof -
  let ?w = "drop_route (drop_marker v)"
  show "wf_map (remove_threats ?w)"
    using assms by (simp add: view_inv_def remove_threats_wf drop_route_wf drop_marker_wf)
  have "set (handles_of is_marker ?w) \<subseteq> set (handles_of is_marker (drop_marker v))"
    by (rule drop_route_handles)
  then have "handles_of is_marker ?w = []"
    using drop_marker_markers [OF assms] by simp
  then show "handles_of is_marker (remove_threats ?w) = []"
    by (simp add: remove_threats_handles)
  have "set (handles_of is_polyline (drop_marker v)) \<subseteq> set_option (routeLayerRef (drop_marker v))"
    using drop_marker_handles [of is_polyline v] assms by (auto simp: view_inv_def)
  then have "handles_of is_polyline ?w = []"
    by (rule drop_route_lines_weak)
  then show "handles_of is_polyline (remove_threats ?w) = []"
    by (simp add: remove_threats_handles)
  have "set (handles_of is_circle ?w) \<subseteq> set (threatLayersRef v)"
    using drop_route_handles [of is_circle "drop_marker v"] drop_marker_handles [of is_circle v] assms
    by (auto simp: view_inv_def)
  then show "handles_of is_circle (remove_threats ?w) = []"
    by (auto simp: remove_threats_handles filter_empty_conv)
qed

lemma cleared_on_map:
  "set (on_map (remove_threats (drop_route (drop_marker v)))) \<subseteq> set (on_map v)"
  using drop_route_on_map [of "drop_marker v"] drop_marker_on_map [of v] by auto

lemma cleared_gone:
  assumes "userMarkerRef v = Some h \<or> routeLayerRef v = Some h \<or> h \<in> set (threatLayersRef v)"
  shows "h \<notin> set (on_map (remove_threats (drop_route (drop_marker v))))"
proof -
  consider "userMarkerRef v = Some h" | "routeLayerRef v = Some h" | "h \<in> set (threatLayersRef v)"
    using assms by blast
  then show ?thesis
  proof cases
    case 1
    then have "h \<notin> set (on_map (drop_marker v))" by (rule drop_marker_gone)
    then show ?thesis
      using drop_route_on_map [of "drop_marker v"] by auto
  next
    case 2
    then have "routeLayerRef (drop_marker v) = Some h" by simp
    then have "h \<notin> set (on_map (drop_route (drop_marker v)))" by (rule drop_route_gone)
    then show ?thesis by simp
  next
    case 3
    then show ?thesis by simp
  qed
qed

lemma updateMap_eq:
  "leafletMap v \<Longrightarrow> updateMap st v =
     foldl (add_circle overlay_color)
       (draw_marker_route st (remove_threats (drop_route (drop_marker v))))
       (dash_threatZones st)"
  by (simp add: updateMap_def add_overlay_eq drop_marker_def drop_route_def draw_marker_route_def
      Let_def)

lemma draw_marker_route_fresh: "fresh v \<le> fresh (draw_marker_route st v)"
  by (simp add: draw_marker_route_def Let_def case_prod_beta split: option.splits)

lemma draw_marker_route_on_map:
  "set (on_map (draw_marker_route st v)) \<subseteq> set (on_map v) \<union> {h. fresh v \<le> h}"
  by (auto simp: draw_marker_route_def Let_def case_prod_beta split: option.splits)

lemma draw_marker_route_leafletMap [simp]:
  "leafletMap (draw_marker_route st v) = leafletMap v"
  by (simp add: draw_marker_route_def Let_def case_prod_beta split: option.splits)

lemma redrawn:
  assumes wf: "wf_map v"
    and m: "handles_of is_marker v = []"
    and p: "handles_of is_polyline v = []"
    and c: "handles_of is_circle v = []"
    and t: "threatLayersRef v = []"
    and r: "\<forall>h \<in> set_option (routeLayerRef v). h < fresh v \<and> holds_at is_polyline v h"
  shows "view_inv (draw_marker_route st v)"
    and "shown is_marker (draw_marker_route st v) =
       [Some (Marker (currentLocation st) (DivIcon (isSOSActive st)))]"
    and "shown is_polyline (draw_marker_route st v) =
       (case safeRoute st of
          Some points \<Rightarrow> [Some (Polyline points (if isSOSActive st then ''#ef4444'' else ''#ff007f'') [])]
        | None \<Rightarrow> [])"
    and "shown is_circle (draw_marker_route st v) = []"
proof -
  define v4 where "v4 = (snd (addTo (Marker (currentLocation st) (DivIcon (isSOSActive st))) v))
                   \<lparr>userMarkerRef := Some (fresh v)\<rparr>"
  have d: "draw_marker_route st v =
     (case safeRoute st of
        Some points \<Rightarrow>
          (snd (addTo (Polyline points (if isSOSActive st then ''#ef4444'' else ''#ff007f'') []) v4))
            \<lparr>routeLayerRef := Some (fresh v4)\<rparr>
      | None \<Rightarrow> v4)"
    by (simp add: draw_marker_route_def v4_def Let_def case_prod_beta split: option.splits)
  have s0: "shown is_marker v = []" "shown is_polyline v = []" "shown is_circle v = []"
    using m p c by (simp_all add: shown_def)
  have wf4: "wf_map v4"
    unfolding v4_def using wf by (simp add: wf_map_addTo)
  have m4: "handles_of is_marker v4 = [fresh v]"
    and p4: "handles_of is_polyline v4 = []"
    and c4: "handles_of is_circle v4 = []"
    unfolding v4_def using m p c by (simp_all add: handles_of_addTo [OF wf])
  have sm4: "shown is_marker v4 = [Some (Marker (currentLocation st) (DivIcon (isSOSActive st)))]"
    and sp4: "shown is_polyline v4 = []"
    and sc4: "shown is_circle v4 = []"
    unfolding v4_def using s0 by (simp_all add: shown_addTo [OF wf])
  have r4: "\<forall>h \<in> set_option (routeLayerRef v4). h < fresh v4 \<and> holds_at is_polyline v4 h"
    unfolding v4_def using r by (auto simp: holds_at_def)
  have t4: "threatLayersRef v4 = []" "userMarkerRef v4 = Some (fresh v)"
    unfolding v4_def using t by simp_all
  have i4: "view_inv v4"
    unfolding view_inv_def using wf4 m4 p4 c4 r4 t4 by simp
  show "view_inv (draw_marker_route st v)"
  proof (cases "safeRoute st")
    case None
    then show ?thesis using i4 by (simp add: d)
  next
    case (Some points)
    then show ?thesis
      using wf4 m4 p4 c4 t4
      by (simp add: d view_inv_def handles_of_addTo [OF wf4] wf_map_addTo holds_at_def)
  qed
  show "shown is_marker (draw_marker_route st v) =
       [Some (Marker (currentLocation st) (DivIcon (isSOSActive st)))]"
    using sm4 by (simp add: d shown_addTo [OF wf4] split: option.splits)
  show "shown is_polyline (draw_marker_route st v) =
       (case safeRoute st of
          Some points \<Rightarrow> [Some (Polyline points (if isSOSActive st then ''#ef4444'' else ''#ff007f'') [])]
        | None \<Rightarrow> [])"
    using sp4 by (simp add: d shown_addTo [OF wf4] split: option.splits)
  show "shown is_circle (draw_marker_route st v) = []"
    using sc4 by (simp add: d shown_addTo [OF wf4] split: option.splits)
qed

lemma updateMap_spec:
  assumes "view_inv v" and "leafletMap v"
  shows "view_inv (updateMap st v)"
    and "shown is_marker (updateMap st v) =
       [Some (Marker (currentLocation st) (DivIcon (isSOSActive st)))]"
    and "shown is_polyline (updateMap st v) =
       (case safeRoute st of
          Some points \<Rightarrow> [Some (Polyline points (if isSOSActive st then ''#ef4444'' else ''#ff007f'') [])]
        | None \<Rightarrow> [])"
    and "shown is_circle (updateMap st v) =
       map (\<lambda>z. Some (zone_circle overlay_color z)) (dash_threatZones st)"
    and "leafletMap (updateMap st v)"
proof -
  let ?c = "remove_threats (drop_route (drop_marker v))"
  have r: "\<forall>h \<in> set_option (routeLayerRef ?c). h < fresh ?c \<and> holds_at is_polyline ?c h"
    using assms(1) by (simp add: view_inv_def)
  have t: "threatLayersRef ?c = []" by simp
  note d = redrawn [OF cleared [OF assms(1)] t r, of st]
  show "view_inv (updateMap st v)"
    using d(1) by (simp add: updateMap_eq [OF assms(2)] add_circles_inv)
  show "shown is_marker (updateMap st v) =
       [Some (Marker (currentLocation st) (DivIcon (isSOSActive st)))]"
    using d(1,2) by (simp add: updateMap_eq [OF assms(2)] add_circles_others)
  show "shown is_polyline (updateMap st v) =
       (case safeRoute st of
          Some points \<Rightarrow> [Some (Polyline points (if isSOSActive st then ''#ef4444'' else ''#ff007f'') [])]
        | None \<Rightarrow> [])"
    using d(1,3) by (simp add: updateMap_eq [OF assms(2)] add_circles_others)
  show "shown is_circle (updateMap st v) =
       map (\<lambda>z. Some (zone_circle overlay_color z)) (dash_threatZones st)"
    using d(1,4) by (simp add: updateMap_eq [OF assms(2)] add_circles_shown)
  show "leafletMap (updateMap st v)"
    using assms(2) by (simp add: updateMap_eq [OF assms(2)])
qed

lemma updateMap_gone:
  assumes "view_inv v" and "leafletMap v"
    and "userMarkerRef v = Some h \<or> routeLayerRef v = Some h \<or> h \<in> set (threatLayersRef v)"
  shows "h \<notin> set (on_map (updateMap st v))"
proof -
  let ?c = "remove_threats (drop_route (drop_marker v))"
  let ?d = "draw_marker_route st ?c"
  have "h \<in> set (on_map v) \<or> h < fresh v"
  proof -
    consider "userMarkerRef v = Some h" | "routeLayerRef v = Some h" | "h \<in> set (threatLayersRef v)"
      using assms(3) by blast
    then show ?thesis
    proof cases
      case 1
      then have "handles_of is_marker v = [h]" using assms(1) by (simp add: view_inv_def)
      then show ?thesis using handles_of_subset [of is_marker v] by auto
    next
      case 2
      then show ?thesis using assms(1) by (simp add: view_inv_def)
    next
      case 3
      then have "h \<in> set (handles_of is_circle v)" using assms(1) by (simp add: view_inv_def)
      then show ?thesis using handles_of_subset [of is_circle v] by auto
    qed
  qed
  then have less: "h < fresh ?c"
    using assms(1) by (auto simp: view_inv_def wf_map_def)
  have out: "h \<notin> set (on_map ?c)"
    using assms(3) by (rule cleared_gone)
  have a: "set (on_map ?d) \<subseteq> set (on_map ?c) \<union> {h. fresh ?c \<le> h}"
    by (rule draw_marker_route_on_map)
  have b: "fresh ?c \<le> fresh ?d"
    by (rule draw_marker_route_fresh)
  have c: "set (on_map (foldl (add_circle overlay_color) ?d (dash_threatZones st)))
      \<subseteq> set (on_map ?d) \<union> {h. fresh ?d \<le> h}"
    by (rule add_circles_on_map)
  have nd: "h \<notin> set (on_map ?d)"
  proof
    assume "h \<in> set (on_map ?d)"
    with a have "h \<in> set (on_map ?c) \<or> fresh ?c \<le> h" by blast
    with out have "fresh ?c \<le> h" by blast
    with less show False by linarith
  qed
  have "h \<notin> set (on_map (foldl (add_circle overlay_color) ?d (dash_threatZones st)))"
  proof
    assume "h \<in> set (on_map (foldl (add_circle overlay_color) ?d (dash_threatZones st)))"
    with c have "h \<in> set (on_map ?d) \<or> fresh ?d \<le> h" by blast
    with nd have "fresh ?d \<le> h" by blast
    with less b show False by linarith
  qed
  then show ?thesis
    by (simp add: updateMap_eq [OF assms(2)])
qed

text \<open>The script creates its map in \<open>initMap\<close>, which draws at once.\<close>

lemma initMap_inv:
  assumes "view_inv v"
  shows "view_inv (initMap container st v)"
proof (cases "\<not> container \<or> leafletMap v")
  case True
  then show ?thesis using assms by (simp add: initMap_def)
next
  case False
  then have e: "initMap container st v = updateMap st (effect_init True v)"
    by (simp add: initMap_def effect_init_def)
  have "leafletMap (effect_init True v)" by simp
  with effect_init_inv [OF assms] show ?thesis
    unfolding e by (rule updateMap_spec(1))
qed

lemma initMap_leafletMap: "leafletMap (initMap True st view0)"
proof -
  have e: "initMap True st view0 = updateMap st (effect_init True view0)"
    by (simp add: initMap_def effect_init_def view0_def)
  have "leafletMap (effect_init True view0)" by simp
  with effect_init_inv [OF view0_inv] show ?thesis
    unfolding e by (rule updateMap_spec(5))
qed

lemma initMap_refs:
  "threatLayersRef (initMap True dash_1 view0) = [3, 4]"
  "on_map (initMap True dash_1 view0) = [0, 1, 2, 3, 4]"
  by (simp_all add: initMap_def updateMap_def remove_threats_def dash_1_def view0_def addTo_def
      add_overlay_def removeLayer_def Let_def)

subsection \<open>Reconciling again, and the overlays\<close>

lemma marker_after:
  assumes "view_inv v" and "leafletMap v \<or> m"
  shows "\<exists>h ic. userMarkerRef (MapComponent_effect True m p v) = Some h \<and>
           objs (MapComponent_effect True m p v) h = Some (Marker (center p) ic) \<and>
           shown is_marker (MapComponent_effect True m p v) = [Some (Marker (center p) ic)]"
proof -
  let ?E = "MapComponent_effect True m p v"
  have "\<exists>ic. shown is_marker ?E = [Some (Marker (center p) ic)]"
  proof (cases "userMarkerRef v")
    case None
    then show ?thesis
      using MapComponent_effect_marker_new [OF assms] by blast
  next
    case (Some h)
    then have "handles_of is_marker v = [h]"
      using assms(1) by (simp add: view_inv_def)
    then have "holds_at is_marker v h"
      using handles_of_holds [of h is_marker v] by simp
    then obtain c ic where "objs v h = Some (Marker c ic)"
      using marker_at by blast
    then show ?thesis
      using MapComponent_effect_marker_existing(1) [OF assms Some] by blast
  qed
  then obtain ic where s: "shown is_marker ?E = [Some (Marker (center p) ic)]"
    by blast
  have i: "handles_of is_marker ?E = (case userMarkerRef ?E of None \<Rightarrow> [] | Some h \<Rightarrow> [h])"
    using MapComponent_effect_inv(1) [OF assms, of p] by (simp add: view_inv_def)
  show ?thesis
  proof (cases "userMarkerRef ?E")
    case None
    with i s show ?thesis by (simp add: shown_def)
  next
    case (Some h)
    with i s show ?thesis by (simp add: shown_def)
  qed
qed

text \<open>
  Claim C7, as amended. With the map present or creatable, running the component's effect
  twice with the same properties leaves exactly one marker, at most one route line and, as
  overlays, one circle per zone if \<open>showThreats\<close> is true and none otherwise; the second run
  shows the same marker, line and circles as the first, no handle is on the map twice, and
  every marker, line and circle on the map is the one the references name, so the next run
  can remove it. The same holds for two runs of the dashboard script's \<open>updateMap\<close> on an
  existing map, with one circle per zone.
\<close>

theorem reconcile_twice:
  assumes "view_inv v" and "leafletMap v \<or> mapRef"
  shows "(let v1 = MapComponent_effect True mapRef p v;
              v2 = MapComponent_effect True mapRef p v1
          in length (shown is_marker v2) = 1 \<and>
             length (shown is_polyline v2) \<le> 1 \<and>
             length (shown is_circle v2) = (if showThreats p then length (threatZones p) else 0) \<and>
             shown is_marker v2 = shown is_marker v1 \<and>
             shown is_polyline v2 = shown is_polyline v1 \<and>
             shown is_circle v2 = shown is_circle v1 \<and>
             distinct (on_map v2) \<and> view_inv v2) \<and>
         (leafletMap v \<longrightarrow>
           (let w1 = updateMap st v; w2 = updateMap st w1
            in length (shown is_marker w2) = 1 \<and>
               length (shown is_polyline w2) \<le> 1 \<and>
               length (shown is_circle w2) = length (dash_threatZones st) \<and>
               shown is_marker w2 = shown is_marker w1 \<and>
               shown is_polyline w2 = shown is_polyline w1 \<and>
               shown is_circle w2 = shown is_circle w1 \<and>
               distinct (on_map w2) \<and> view_inv w2))"
proof -
  let ?v1 = "MapComponent_effect True mapRef p v"
  let ?v2 = "MapComponent_effect True mapRef p ?v1"
  have i1: "view_inv ?v1" and l1: "leafletMap ?v1 \<or> mapRef"
    using MapComponent_effect_inv [OF assms, of p] by simp_all
  have i2: "view_inv ?v2"
    by (rule MapComponent_effect_inv(1) [OF i1 l1])
  from marker_after [OF assms, of p] obtain h ic where
    u: "userMarkerRef ?v1 = Some h" and o: "objs ?v1 h = Some (Marker (center p) ic)"
    and s1: "shown is_marker ?v1 = [Some (Marker (center p) ic)]"
    by blast
  have s2: "shown is_marker ?v2 = [Some (Marker (center p) ic)]"
    by (rule MapComponent_effect_marker_existing(1) [OF i1 l1 u o])
  have p1: "shown is_polyline ?v1 =
      (if route_points p = [] then [] else [Some (route_line p (route_points p))])"
    by (rule MapComponent_effect_lines [OF assms])
  have p2: "shown is_polyline ?v2 =
      (if route_points p = [] then [] else [Some (route_line p (route_points p))])"
    by (rule MapComponent_effect_lines [OF i1 l1])
  have c1: "shown is_circle ?v1 =
      (if showThreats p then map (\<lambda>z. Some (zone_circle zone_color z)) (threatZones p) else [])"
    by (rule MapComponent_effect_circles [OF assms])
  have c2: "shown is_circle ?v2 =
      (if showThreats p then map (\<lambda>z. Some (zone_circle zone_color z)) (threatZones p) else [])"
    by (rule MapComponent_effect_circles [OF i1 l1])
  have d2: "distinct (on_map ?v2)"
    using i2 by (simp add: view_inv_def wf_map_def)
  have component: "length (shown is_marker ?v2) = 1 \<and>
             length (shown is_polyline ?v2) \<le> 1 \<and>
             length (shown is_circle ?v2) = (if showThreats p then length (threatZones p) else 0) \<and>
             shown is_marker ?v2 = shown is_marker ?v1 \<and>
             shown is_polyline ?v2 = shown is_polyline ?v1 \<and>
             shown is_circle ?v2 = shown is_circle ?v1 \<and>
             distinct (on_map ?v2) \<and> view_inv ?v2"
    using s1 s2 p1 p2 c1 c2 d2 i2 by simp
  let ?w1 = "updateMap st v"
  let ?w2 = "updateMap st ?w1"
  have script: "length (shown is_marker ?w2) = 1 \<and>
               length (shown is_polyline ?w2) \<le> 1 \<and>
               length (shown is_circle ?w2) = length (dash_threatZones st) \<and>
               shown is_marker ?w2 = shown is_marker ?w1 \<and>
               shown is_polyline ?w2 = shown is_polyline ?w1 \<and>
               shown is_circle ?w2 = shown is_circle ?w1 \<and>
               distinct (on_map ?w2) \<and> view_inv ?w2"
    if l: "leafletMap v"
  proof -
    note a = updateMap_spec [OF assms(1) l, of st]
    note b = updateMap_spec [OF a(1) a(5), of st]
    have "distinct (on_map (updateMap st (updateMap st v)))"
      using b(1) by (simp add: view_inv_def wf_map_def)
    then show ?thesis
      using a b by (simp split: option.splits)
  qed
  show ?thesis
    unfolding Let_def using component script by blast
qed

theorem reconcile_twice_witness:
  "view_inv (MapComponent_effect True True with_zones view0) \<and>
   leafletMap (MapComponent_effect True True with_zones view0) \<and>
   showThreats with_zones \<and> length (threatZones with_zones) = 2 \<and>
   length (shown is_marker (MapComponent_effect True True with_zones
      (MapComponent_effect True True with_zones
        (MapComponent_effect True True with_zones view0)))) = 1 \<and>
   length (shown is_circle (MapComponent_effect True True with_zones
      (MapComponent_effect True True with_zones
        (MapComponent_effect True True with_zones view0)))) = 2 \<and>
   view_inv (initMap True dash_1 view0) \<and> leafletMap (initMap True dash_1 view0) \<and>
   length (dash_threatZones dash_1) = 2 \<and>
   length (shown is_marker (updateMap dash_1 (updateMap dash_1 (initMap True dash_1 view0)))) = 1 \<and>
   length (shown is_circle (updateMap dash_1 (updateMap dash_1 (initMap True dash_1 view0)))) = 2"
proof -
  have i1: "view_inv (MapComponent_effect True True with_zones view0)"
    by (rule first_render_inv)
  have l1: "leafletMap (MapComponent_effect True True with_zones view0)"
    using first_render_map [of with_zones False] by simp
  have l1': "leafletMap (MapComponent_effect True True with_zones view0) \<or> True"
    by simp
  have i2: "view_inv (initMap True dash_1 view0)"
    by (rule initMap_inv [OF view0_inv])
  have l2: "leafletMap (initMap True dash_1 view0)"
    by (rule initMap_leafletMap)
  have l2': "leafletMap (initMap True dash_1 view0) \<or> True"
    by simp
  have h: "showThreats with_zones" "length (threatZones with_zones) = 2"
    "length (dash_threatZones dash_1) = 2"
    by (simp_all add: with_zones_def scenario_A_def dash_1_def)
  have a: "length (shown is_marker (MapComponent_effect True True with_zones
      (MapComponent_effect True True with_zones
        (MapComponent_effect True True with_zones view0)))) = 1 \<and>
   length (shown is_circle (MapComponent_effect True True with_zones
      (MapComponent_effect True True with_zones
        (MapComponent_effect True True with_zones view0)))) = 2"
    using reconcile_twice [OF i1 l1', of with_zones dash_1] h
    unfolding Let_def by (elim conjE) (intro conjI, simp_all)
  have b: "length (shown is_marker (updateMap dash_1 (updateMap dash_1 (initMap True dash_1 view0)))) = 1 \<and>
   length (shown is_circle (updateMap dash_1 (updateMap dash_1 (initMap True dash_1 view0)))) = 2"
    using reconcile_twice [OF i2 l2', of with_zones dash_1] h
    unfolding Let_def by (elim conjE impE) (rule l2, intro conjI, simp_all)
  from a b i1 l1 i2 l2 h show ?thesis by simp
qed

text \<open>Two zones and \<open>showThreats\<close> false: after two runs no overlay is on the map.\<close>

theorem reconcile_twice_hidden_counterexample:
  "length (shown is_circle (MapComponent_effect True True hidden_zones
      (MapComponent_effect True True hidden_zones view0))) = 0 \<and>
   length (threatZones hidden_zones) = 2"
proof -
  have i1: "view_inv (MapComponent_effect True True hidden_zones view0)"
    by (rule first_render_inv)
  have l1: "leafletMap (MapComponent_effect True True hidden_zones view0) \<or> True"
    by simp
  have h: "\<not> showThreats hidden_zones" "length (threatZones hidden_zones) = 2"
    by (simp_all add: hidden_zones_def scenario_A_def)
  show ?thesis
    using MapComponent_effect_circles [OF i1 l1, of hidden_zones] h by simp
qed

text \<open>
  Claim C8, as amended. With the map present or creatable, a run of the component's effect
  takes every overlay of the previous run off the map; if \<open>showThreats\<close> is true it creates,
  in the order of the zones, one circle per zone with the zone's coordinate as centre, the
  zone's radius and the colour of its intensity, where High, Medium and Low have three
  different colours; if \<open>showThreats\<close> is false it creates none. The dashboard script's
  \<open>updateMap\<close> also replaces all overlays by one circle per zone with the zone's centre and
  radius, but it has two colours only: one for High and one for every other intensity.
\<close>

theorem overlays_recreated:
  assumes "view_inv v" and "leafletMap v \<or> mapRef"
  shows "(\<forall>h \<in> set (threatLayersRef v). h \<notin> set (on_map (MapComponent_effect True mapRef p v))) \<and>
     shown is_circle (MapComponent_effect True mapRef p v) =
       (if showThreats p
        then map (\<lambda>z. Some (Circle (lat z, lng z) (radius z) (zone_color (intensity z)))) (threatZones p)
        else []) \<and>
     zone_color High \<noteq> zone_color Medium \<and> zone_color High \<noteq> zone_color Low \<and>
     zone_color Medium \<noteq> zone_color Low \<and>
     (leafletMap v \<longrightarrow>
        (\<forall>h \<in> set (threatLayersRef v). h \<notin> set (on_map (updateMap st v))) \<and>
        shown is_circle (updateMap st v) =
          map (\<lambda>z. Some (Circle (lat z, lng z) (radius z)
                  (if intensity z = High then ''#ef4444'' else ''#f59e0b''))) (dash_threatZones st))"
proof -
  have a: "\<forall>h \<in> set (threatLayersRef v). h \<notin> set (on_map (MapComponent_effect True mapRef p v))"
    using MapComponent_effect_threats_gone [OF assms] by blast
  have b: "shown is_circle (MapComponent_effect True mapRef p v) =
       (if showThreats p
        then map (\<lambda>z. Some (Circle (lat z, lng z) (radius z) (zone_color (intensity z)))) (threatZones p)
        else [])"
    by (simp add: MapComponent_effect_circles [OF assms] zone_circle_def)
  have c: "zone_color High \<noteq> zone_color Medium \<and> zone_color High \<noteq> zone_color Low \<and>
     zone_color Medium \<noteq> zone_color Low"
    by (simp add: zone_color_def)
  have d: "(\<forall>h \<in> set (threatLayersRef v). h \<notin> set (on_map (updateMap st v))) \<and>
        shown is_circle (updateMap st v) =
          map (\<lambda>z. Some (Circle (lat z, lng z) (radius z)
                  (if intensity z = High then ''#ef4444'' else ''#f59e0b''))) (dash_threatZones st)"
    if l: "leafletMap v"
    using updateMap_gone [OF assms(1) l] updateMap_spec(4) [OF assms(1) l, of st]
    by (simp add: zone_circle_def overlay_color_def)
  from a b c d show ?thesis by blast
qed

theorem overlays_recreated_witness:
  "view_inv (MapComponent_effect True True with_zones view0) \<and>
   leafletMap (MapComponent_effect True True with_zones view0) \<and>
   threatLayersRef (MapComponent_effect True True with_zones view0) = [3, 4] \<and>
   showThreats with_zones \<and>
   3 \<notin> set (on_map (MapComponent_effect True True with_zones
                     (MapComponent_effect True True with_zones view0))) \<and>
   shown is_circle (MapComponent_effect True True with_zones
                     (MapComponent_effect True True with_zones view0)) =
     [Some (Circle (40.75, -73.99) 300 ''#f59e0b''), Some (Circle (40.752, -73.995) 150 ''#3b82f6'')] \<and>
   view_inv (initMap True dash_1 view0) \<and> leafletMap (initMap True dash_1 view0) \<and>
   threatLayersRef (initMap True dash_1 view0) = [3, 4] \<and>
   4 \<notin> set (on_map (updateMap dash_1 (initMap True dash_1 view0))) \<and>
   shown is_circle (updateMap dash_1 (initMap True dash_1 view0)) =
     [Some (Circle (40.75, -73.99) 300 ''#f59e0b''), Some (Circle (40.752, -73.995) 150 ''#f59e0b'')]"
proof -
  have i1: "view_inv (MapComponent_effect True True with_zones view0)"
    by (rule first_render_inv)
  have l1: "leafletMap (MapComponent_effect True True with_zones view0)"
    using first_render_map [of with_zones False] by simp
  have l1': "leafletMap (MapComponent_effect True True with_zones view0) \<or> True"
    by simp
  have i2: "view_inv (initMap True dash_1 view0)"
    by (rule initMap_inv [OF view0_inv])
  have l2: "leafletMap (initMap True dash_1 view0)"
    by (rule initMap_leafletMap)
  have l2': "leafletMap (initMap True dash_1 view0) \<or> True"
    by simp
  have h: "showThreats with_zones" "threatZones with_zones = [zone_1, zone_2]"
    "dash_threatZones dash_1 = [zone_1, zone_2]"
    by (simp_all add: with_zones_def scenario_A_def dash_1_def)
  have a: "3 \<notin> set (on_map (MapComponent_effect True True with_zones
                     (MapComponent_effect True True with_zones view0))) \<and>
   shown is_circle (MapComponent_effect True True with_zones
                     (MapComponent_effect True True with_zones view0)) =
     [Some (Circle (40.75, -73.99) 300 ''#f59e0b''), Some (Circle (40.752, -73.995) 150 ''#3b82f6'')]"
    using overlays_recreated [OF i1 l1', of with_zones dash_1] h zones_render(1)
    by (simp add: zone_1_def zone_2_def zone_color_def)
  have b: "4 \<notin> set (on_map (updateMap dash_1 (initMap True dash_1 view0))) \<and>
   shown is_circle (updateMap dash_1 (initMap True dash_1 view0)) =
     [Some (Circle (40.75, -73.99) 300 ''#f59e0b''), Some (Circle (40.752, -73.995) 150 ''#f59e0b'')]"
    using overlays_recreated [OF i2 l2', of with_zones dash_1] l2 h initMap_refs(1)
    by (simp add: zone_1_def zone_2_def)
  from a b i1 l1 i2 l2 h zones_render(1) initMap_refs(1) show ?thesis by simp
qed

text \<open>
  Two zones of intensity Medium and Low: the component with \<open>showThreats\<close> false draws no
  overlay for them, and \<open>updateMap\<close> draws both in the same colour.
\<close>

theorem overlays_hidden_or_same_colour_counterexample:
  "threatZones hidden_zones = [zone_1, zone_2] \<and>
   shown is_circle (MapComponent_effect True True hidden_zones view0) = [] \<and>
   dash_threatZones dash_1 = [zone_1, zone_2] \<and>
   intensity zone_1 = Medium \<and> intensity zone_2 = Low \<and>
   shown is_circle (updateMap dash_1 (initMap True dash_1 view0)) =
     [Some (Circle (40.75, -73.99) 300 ''#f59e0b''), Some (Circle (40.752, -73.995) 150 ''#f59e0b'')]"
proof -
  have i2: "view_inv (initMap True dash_1 view0)"
    by (rule initMap_inv [OF view0_inv])
  have l2: "leafletMap (initMap True dash_1 view0)"
    by (rule initMap_leafletMap)
  have l0: "leafletMap view0 \<or> True"
    by simp
  have h: "\<not> showThreats hidden_zones" "threatZones hidden_zones = [zone_1, zone_2]"
    "dash_threatZones dash_1 = [zone_1, zone_2]"
    by (simp_all add: hidden_zones_def scenario_A_def dash_1_def)
  show ?thesis
    using MapComponent_effect_circles [OF view0_inv l0, of hidden_zones]
      updateMap_spec(4) [OF i2 l2, of dash_1] h
    by (simp add: zone_1_def zone_2_def zone_circle_def overlay_color_def)
qed

end
